theory Spec2Isabelle
  imports Main "HOL-Library.Word"
begin

unbundle bit_operations_syntax

section \<open>Data model of package tx\<close>

type_synonym byte = "8 word"
type_synonym bytes = "byte list"
type_synonym uint8 = "8 word"
type_synonym uint32 = "32 word"
type_synonym uint64 = "64 word"

text \<open>
  \<open>thor.Bytes32\<close> is \<open>[32]byte\<close> and \<open>thor.Address\<close> is \<open>[20]byte\<close>; both are kept as
  byte lists, their length being stated where a property depends on it.
\<close>

type_synonym Bytes32 = bytes
type_synonym Address = bytes

text \<open>
  The values handed to and returned by the RLP codec: a byte string or a list of values.
  Go's decoder stores exactly these two shapes (\<open>[]byte\<close> and \<open>[]interface{}\<close>) into an
  \<open>interface{}\<close>, which is what the entries of \<open>body.Reserved\<close> are.
\<close>

datatype rlp_item = String bytes | List "rlp_item list"

text \<open>
  Modelled from the spec: Clause (clause.go is not under src/). The spec gives
  \<open>{ to: optional Address, value: unsigned integer, data: byte sequence }\<close>; \<open>to = none\<close>
  denotes contract creation. \<open>transaction.go\<close> reads \<open>c.body.To\<close> and \<open>c.body.Data\<close>.
\<close>

record Clause =
  To :: "Address option"
  Value :: nat
  Data :: bytes

record body =
  ChainTag :: byte
  Nonce :: uint64
  BlockRef :: uint64
  Clauses :: "Clause list"
  GasPriceCoef :: uint8
  Gas :: uint64
  DependsOn :: "Bytes32 option"
  Reserved :: "rlp_item list"
  Signature :: bytes

text \<open>The four \<open>atomic.Value\<close> cells of a transaction; \<open>None\<close> is the unset cell.\<close>

record cache =
  c_signingHash :: "Bytes32 option"
  c_signer :: "Address option"
  c_id :: "Bytes32 option"
  c_size :: "nat option"

record Transaction =
  body :: body
  cache :: cache

definition empty_cache :: cache where
  "empty_cache = \<lparr>c_signingHash = None, c_signer = None, c_id = None, c_size = None\<rparr>"

text \<open>
  The protocol constants of packages \<open>thor\<close> and \<open>params\<close>, which are not under src/:
  they are parameters of every function that reads them.
\<close>

record thor_params =
  TxGas :: uint64
  ClauseGas :: uint64
  ClauseGasContractCreation :: uint64
  TxDataZeroGas :: uint64
  TxDataNonZeroGas :: uint64
  MaxTxWorkDelay :: uint32

datatype error = ErrOutOfGas | ErrSigToPub | DivisionByZero

section \<open>Overflow-checked arithmetic (go-ethereum common/math)\<close>

definition MaxUint64 :: uint64 where
  "MaxUint64 = - 1"

definition MaxUint32 :: uint32 where
  "MaxUint32 = - 1"

definition SafeAdd :: "uint64 \<Rightarrow> uint64 \<Rightarrow> uint64 \<times> bool" where
  "SafeAdd x y = (x + y, y > MaxUint64 - x)"

definition SafeMul :: "uint64 \<Rightarrow> uint64 \<Rightarrow> uint64 \<times> bool" where
  "SafeMul x y = (if x = 0 \<or> y = 0 then (0, False) else (x * y, y > MaxUint64 div x))"

section \<open>Intrinsic gas\<close>

text \<open>The counting loop of \<open>dataGas\<close>: \<open>z\<close> and \<open>nz\<close> are \<open>uint64\<close> counters.\<close>

fun count_bytes :: "bytes \<Rightarrow> uint64 \<times> uint64 \<Rightarrow> uint64 \<times> uint64" where
  "count_bytes [] (z, nz) = (z, nz)"
| "count_bytes (byt # rest) (z, nz) =
     (if byt = 0 then count_bytes rest (z + 1, nz) else count_bytes rest (z, nz + 1))"

definition dataGas :: "thor_params \<Rightarrow> bytes \<Rightarrow> error + uint64" where
  "dataGas P data =
     (if length data = 0 then Inr 0
      else
        let (z, nz) = count_bytes data (0, 0);
            (zgas, overflow) = SafeMul (TxDataZeroGas P) z
        in if overflow then Inl ErrOutOfGas
           else
             let (nzgas, overflow) = SafeMul (TxDataNonZeroGas P) nz
             in if overflow then Inl ErrOutOfGas
                else
                  let (gas, overflow) = SafeAdd zgas nzgas
                  in if overflow then Inl ErrOutOfGas else Inr gas)"

text \<open>The body of the \<open>for _, c := range t.body.Clauses\<close> loop; \<open>tot\<close> is its variable \<open>total\<close>.\<close>

fun clauses_gas :: "thor_params \<Rightarrow> uint64 \<Rightarrow> Clause list \<Rightarrow> error + uint64" where
  "clauses_gas P tot [] = Inr tot"
| "clauses_gas P tot (c # cs) =
     (case dataGas P (Data c) of
        Inl err \<Rightarrow> Inl err
      | Inr gas \<Rightarrow>
          let (tot, overflow) = SafeAdd tot gas
          in if overflow then Inl ErrOutOfGas
             else
               let cgas = (if To c = None then ClauseGasContractCreation P else ClauseGas P);
                   (tot, overflow) = SafeAdd tot cgas
               in if overflow then Inl ErrOutOfGas else clauses_gas P tot cs)"

definition IntrinsicGas :: "thor_params \<Rightarrow> Transaction \<Rightarrow> error + uint64" where
  "IntrinsicGas P t =
     (if length (Clauses (body t)) = 0 then Inr (TxGas P + ClauseGas P)
      else clauses_gas P (TxGas P) (Clauses (body t)))"

section \<open>Gas price\<close>

text \<open>
  \<open>big.Int.Div\<close> is Euclidean division (the remainder is never negative) and panics on a
  zero divisor.
\<close>

definition big_Div :: "int \<Rightarrow> int \<Rightarrow> error + int" where
  "big_Div x y =
     (if y = 0 then Inl DivisionByZero
      else if 0 < y then Inr (x div y)
      else Inr (- (x div (- y))))"

definition MaxUint8 :: int where
  "MaxUint8 = 255"

text \<open>
  \<open>GasPrice\<close>: the divisor is the constant 255, so the division cannot panic; the result of
  \<open>big_Div\<close> is bound as the code's \<open>x\<close>.
\<close>

definition GasPrice :: "Transaction \<Rightarrow> int \<Rightarrow> error + int" where
  "GasPrice t baseGasPrice =
     (let x = uint (GasPriceCoef (body t));
          x = x * baseGasPrice
      in case big_Div x MaxUint8 of
           Inl err \<Rightarrow> Inl err
         | Inr x \<Rightarrow> Inr (x + baseGasPrice))"


section \<open>RLP encoding (go-ethereum rlp, an external package)\<close>

text \<open>
  \<open>big.Int.Bytes\<close> and the integer writer of the codec: the big-endian digits of a number
  without leading zero bytes (none at all for 0). \<open>SetBytes\<close> reads them back.
\<close>

function be_bytes :: "nat \<Rightarrow> bytes" where
  "be_bytes n = (if n = 0 then [] else be_bytes (n div 256) @ [of_nat (n mod 256)])"
  by pat_completeness auto
termination
  by (relation "measure id") auto

definition SetBytes :: "bytes \<Rightarrow> nat" where
  "SetBytes bs = foldl (\<lambda>acc b. acc * 256 + unat b) 0 bs"

text \<open>The header of a string (\<open>base = 0x80\<close>) or of a list (\<open>base = 0xc0\<close>) of \<open>n\<close> bytes.\<close>

definition rlp_head :: "nat \<Rightarrow> nat \<Rightarrow> bytes" where
  "rlp_head base n =
     (if n < 56 then [of_nat (base + n)]
      else of_nat (base + 55 + length (be_bytes n)) # be_bytes n)"

fun rlp_encode :: "rlp_item \<Rightarrow> bytes" where
  "rlp_encode (String bs) =
     (if length bs = 1 \<and> hd bs < 0x80 then bs else rlp_head 0x80 (length bs) @ bs)"
| "rlp_encode (List xs) =
     (let payload = concat (map rlp_encode xs) in rlp_head 0xc0 (length payload) @ payload)"

text \<open>How the codec sees the fields of \<open>body\<close> and of a clause.\<close>

definition rlp_uint :: "nat \<Rightarrow> rlp_item" where
  "rlp_uint n = String (be_bytes n)"

definition rlp_ptr :: "bytes option \<Rightarrow> rlp_item" where
  "rlp_ptr p = (case p of None \<Rightarrow> String [] | Some a \<Rightarrow> String a)"

definition rlp_clause :: "Clause \<Rightarrow> rlp_item" where
  "rlp_clause c = List [rlp_ptr (To c), rlp_uint (Value c), String (Data c)]"

text \<open>\<open>rlp.Encode(w, &t.body)\<close>: all nine fields, in the order of the struct.\<close>

definition rlp_body :: "body \<Rightarrow> rlp_item" where
  "rlp_body b =
     List [rlp_uint (unat (ChainTag b)),
           rlp_uint (unat (Nonce b)),
           rlp_uint (unat (BlockRef b)),
           List (map rlp_clause (Clauses b)),
           rlp_uint (unat (GasPriceCoef b)),
           rlp_uint (unat (Gas b)),
           rlp_ptr (DependsOn b),
           List (Reserved b),
           String (Signature b)]"

definition EncodeRLP :: "Transaction \<Rightarrow> bytes" where
  "EncodeRLP t = rlp_encode (rlp_body (body t))"

section \<open>RLP decoding\<close>

text \<open>
  Modelled from the spec: the canonical codec. \<open>EncodeRLP\<close> and \<open>DecodeRLP\<close> hand the body
  to package \<open>rlp\<close> of go-ethereum, which is not under src/; the spec asks for a
  length-prefixed, order-preserving encoding whose malformed inputs (a truncated stream, an
  invalid list structure, a numeric field exceeding its declared width) are decode errors.
  The decoder below is the one of RLP: \<open>readKind\<close> reads a header and rejects
  non-canonical sizes, \<open>rlp_decode\<close> reads one value and returns the rest of the stream,
  \<open>rlp_decode_list\<close> the values of a list payload. \<open>None\<close> is the decode error.
\<close>

datatype kind = KByte byte | KString nat | KList nat

definition readUint :: "nat \<Rightarrow> bytes \<Rightarrow> (nat \<times> bytes) option" where
  "readUint l bs =
     (if length bs < l then None
      else if hd (take l bs) = 0 then None
      else Some (SetBytes (take l bs), drop l bs))"

definition readKind :: "bytes \<Rightarrow> (kind \<times> bytes) option" where
  "readKind bs =
     (case bs of
        [] \<Rightarrow> None
      | b # rest \<Rightarrow>
          if b < 0x80 then Some (KByte b, rest)
          else if b < 0xB8 then Some (KString (unat b - 0x80), rest)
          else if b < 0xC0 then
            (case readUint (unat b - 0xB7) rest of
               None \<Rightarrow> None
             | Some (n, rest') \<Rightarrow> if n < 56 then None else Some (KString n, rest'))
          else if b < 0xF8 then Some (KList (unat b - 0xC0), rest)
          else
            (case readUint (unat b - 0xF7) rest of
               None \<Rightarrow> None
             | Some (n, rest') \<Rightarrow> if n < 56 then None else Some (KList n, rest')))"

function rlp_decode :: "bytes \<Rightarrow> (rlp_item \<times> bytes) option"
  and rlp_decode_list :: "bytes \<Rightarrow> rlp_item list option" where
  "rlp_decode bs =
     (case readKind bs of
        None \<Rightarrow> None
      | Some (KByte b, rest) \<Rightarrow> Some (String [b], rest)
      | Some (KString n, rest) \<Rightarrow>
          if length rest < n then None
          else if n = 1 \<and> hd rest < 0x80 then None
          else Some (String (take n rest), drop n rest)
      | Some (KList n, rest) \<Rightarrow>
          if length rest < n then None
          else (case rlp_decode_list (take n rest) of
                  None \<Rightarrow> None
                | Some xs \<Rightarrow> Some (List xs, drop n rest)))"
| "rlp_decode_list bs =
     (if bs = [] then Some []
      else case rlp_decode bs of
             None \<Rightarrow> None
           | Some (x, rest) \<Rightarrow>
               if length rest < length bs
               then (case rlp_decode_list rest of
                       None \<Rightarrow> None
                     | Some xs \<Rightarrow> Some (x # xs))
               else None)"
  by pat_completeness auto
termination
  by (relation "measure (\<lambda>s. case s of Inl bs \<Rightarrow> 2 * length bs | Inr bs \<Rightarrow> 2 * length bs + 1)")
     (auto simp: readKind_def readUint_def split: list.splits if_splits option.splits)

declare rlp_decode.simps [simp del] rlp_decode_list.simps [simp del]

text \<open>
  Decoding into the fields of \<open>body\<close>: an unsigned integer of at most \<open>maxbytes\<close> bytes
  without leading zero, a \<open>*big.Int\<close>, a byte slice, a pointer tagged \<open>rlp:"nil"\<close> to an
  array of \<open>n\<close> bytes (an empty value is the nil pointer), a clause, and the body's nine
  fields in order.
\<close>

definition dec_uint :: "nat \<Rightarrow> rlp_item \<Rightarrow> nat option" where
  "dec_uint maxbytes x =
     (case x of
        String bs \<Rightarrow>
          if length bs > maxbytes then None
          else if bs \<noteq> [] \<and> hd bs = 0 then None
          else Some (SetBytes bs)
      | List xs \<Rightarrow> None)"

definition dec_bigint :: "rlp_item \<Rightarrow> nat option" where
  "dec_bigint x =
     (case x of
        String bs \<Rightarrow> if bs \<noteq> [] \<and> hd bs = 0 then None else Some (SetBytes bs)
      | List xs \<Rightarrow> None)"

definition dec_bytes :: "rlp_item \<Rightarrow> bytes option" where
  "dec_bytes x = (case x of String bs \<Rightarrow> Some bs | List xs \<Rightarrow> None)"

definition dec_ptr :: "nat \<Rightarrow> rlp_item \<Rightarrow> bytes option option" where
  "dec_ptr n x =
     (case x of
        String bs \<Rightarrow> if bs = [] then Some None else if length bs = n then Some (Some bs) else None
      | List xs \<Rightarrow> if xs = [] then Some None else None)"

definition dec_clause :: "rlp_item \<Rightarrow> Clause option" where
  "dec_clause x =
     (case x of
        List [to, val, dat] \<Rightarrow>
          Option.bind (dec_ptr 20 to) (\<lambda>to.
          Option.bind (dec_bigint val) (\<lambda>val.
          Option.bind (dec_bytes dat) (\<lambda>dat.
          Some \<lparr>To = to, Value = val, Data = dat\<rparr>)))
      | _ \<Rightarrow> None)"

definition dec_clauses :: "rlp_item \<Rightarrow> Clause list option" where
  "dec_clauses x = (case x of List xs \<Rightarrow> those (map dec_clause xs) | String bs \<Rightarrow> None)"

definition dec_reserved :: "rlp_item \<Rightarrow> rlp_item list option" where
  "dec_reserved x = (case x of List xs \<Rightarrow> Some xs | String bs \<Rightarrow> None)"

definition dec_body :: "rlp_item \<Rightarrow> body option" where
  "dec_body x =
     (case x of
        List [f1, f2, f3, f4, f5, f6, f7, f8, f9] \<Rightarrow>
          Option.bind (dec_uint 1 f1) (\<lambda>chainTag.
          Option.bind (dec_uint 8 f2) (\<lambda>nonce.
          Option.bind (dec_uint 8 f3) (\<lambda>blockRef.
          Option.bind (dec_clauses f4) (\<lambda>clauses.
          Option.bind (dec_uint 1 f5) (\<lambda>gasPriceCoef.
          Option.bind (dec_uint 8 f6) (\<lambda>gas.
          Option.bind (dec_ptr 32 f7) (\<lambda>dependsOn.
          Option.bind (dec_reserved f8) (\<lambda>reserved.
          Option.bind (dec_bytes f9) (\<lambda>signature.
          Some \<lparr>ChainTag = of_nat chainTag, Nonce = of_nat nonce, BlockRef = of_nat blockRef,
                Clauses = clauses, GasPriceCoef = of_nat gasPriceCoef, Gas = of_nat gas,
                DependsOn = dependsOn, Reserved = reserved, Signature = signature\<rparr>)))))))))
      | _ \<Rightarrow> None)"

text \<open>\<open>DecodeRLP\<close> reads a body from the stream and builds a transaction with unset cells.\<close>

definition DecodeRLP :: "bytes \<Rightarrow> (Transaction \<times> bytes) option" where
  "DecodeRLP s =
     (case rlp_decode s of
        None \<Rightarrow> None
      | Some (x, rest) \<Rightarrow>
          (case dec_body x of
             None \<Rightarrow> None
           | Some b \<Rightarrow> Some (\<lparr>body = b, cache = empty_cache\<rparr>, rest)))"

section \<open>Identity and signing\<close>

text \<open>
  The primitives of the packages \<open>crypto\<close> and \<open>sha3\<close>, and \<open>workToGas\<close> of this package
  (its file is not under src/), are parameters. \<open>'pub\<close> is the type of public keys.
\<close>

record 'pub env =
  Keccak256 :: "bytes \<Rightarrow> Bytes32"
  SigToPub :: "bytes \<Rightarrow> bytes \<Rightarrow> error + 'pub"
  PubkeyToAddress :: "'pub \<Rightarrow> Address"
  workToGas :: "int \<Rightarrow> uint32 \<Rightarrow> uint64"

definition MaxBig256 :: int where
  "MaxBig256 = 2 ^ 256 - 1"

text \<open>
  Modelled from the spec: thor.BytesToBytes32 (package thor is not under src/), which
  fills a 32-byte array from the right, dropping what does not fit on the left.
\<close>

definition BytesToBytes32 :: "bytes \<Rightarrow> Bytes32" where
  "BytesToBytes32 b =
     (if length b > 32 then drop (length b - 32) b else replicate (32 - length b) 0 @ b)"

definition invalidTxID :: Bytes32 where
  "invalidTxID = BytesToBytes32 (be_bytes (nat MaxBig256))"

text \<open>
  The process-wide \<open>signerCache\<close> (hashicorp/golang-lru): the entries, most recently used
  first. \<open>Get\<close> moves a hit to the front; \<open>Add\<close> puts the entry at the front and evicts the
  oldest entry when the cache holds more than \<open>signerCacheSize\<close> entries.
\<close>

type_synonym lru = "(Bytes32 \<times> Address) list"

definition signerCacheSize :: nat where
  "signerCacheSize = 1024"

definition lru_Get :: "Bytes32 \<Rightarrow> lru \<Rightarrow> Address option \<times> lru" where
  "lru_Get k c =
     (case map_of c k of
        None \<Rightarrow> (None, c)
      | Some v \<Rightarrow> (Some v, (k, v) # filter (\<lambda>e. fst e \<noteq> k) c))"

definition lru_Add :: "Bytes32 \<Rightarrow> Address \<Rightarrow> lru \<Rightarrow> lru" where
  "lru_Add k v c =
     (case map_of c k of
        Some _ \<Rightarrow> (k, v) # filter (\<lambda>e. fst e \<noteq> k) c
      | None \<Rightarrow> take signerCacheSize ((k, v) # c))"

text \<open>
  A method with receiver \<open>t *Transaction\<close> returns its result together with the receiver after
  the call (its cache cells may have been stored to) and, where it is used, the signer cache.
\<close>

definition SigningHash :: "'pub env \<Rightarrow> Transaction \<Rightarrow> Bytes32 \<times> Transaction" where
  "SigningHash E t =
     (case c_signingHash (cache t) of
        Some cached \<Rightarrow> (cached, t)
      | None \<Rightarrow>
          let hash = Keccak256 E (rlp_encode (List
                [rlp_uint (unat (ChainTag (body t))),
                 rlp_uint (unat (Nonce (body t))),
                 rlp_uint (unat (BlockRef (body t))),
                 List (map rlp_clause (Clauses (body t))),
                 rlp_uint (unat (GasPriceCoef (body t))),
                 rlp_uint (unat (Gas (body t))),
                 rlp_ptr (DependsOn (body t)),
                 List (Reserved (body t))]))
          in (hash, t\<lparr>cache := (cache t)\<lparr>c_signingHash := Some hash\<rparr>\<rparr>))"

definition Signer :: "'pub env \<Rightarrow> Transaction \<Rightarrow> lru \<Rightarrow> (error + Address) \<times> Transaction \<times> lru" where
  "Signer E t sc =
     (case c_signer (cache t) of
        Some cached \<Rightarrow> (Inr cached, t, sc)
      | None \<Rightarrow>
          (let hash = Keccak256 E (EncodeRLP t)
           in (case lru_Get hash sc of
                 (Some v, sc) \<Rightarrow> (Inr v, t\<lparr>cache := (cache t)\<lparr>c_signer := Some v\<rparr>\<rparr>, sc)
               | (None, sc) \<Rightarrow>
                   (let (sh, t) = SigningHash E t
                    in (case SigToPub E sh (Signature (body t)) of
                          Inl err \<Rightarrow> (Inl err, t, sc)
                        | Inr pub \<Rightarrow>
                            (let signer = PubkeyToAddress E pub
                             in (Inr signer, t\<lparr>cache := (cache t)\<lparr>c_signer := Some signer\<rparr>\<rparr>,
                                 lru_Add hash signer sc)))))))"

definition makeID :: "'pub env \<Rightarrow> Transaction \<Rightarrow> Address \<Rightarrow> Bytes32 \<times> Transaction" where
  "makeID E t signer =
     (let (sh, t) = SigningHash E t in (Keccak256 E (sh @ signer), t))"

text \<open>\<open>ID\<close>: the deferred \<open>t.cache.id.Store(id)\<close> runs on both return paths.\<close>

definition ID :: "'pub env \<Rightarrow> Transaction \<Rightarrow> lru \<Rightarrow> Bytes32 \<times> Transaction \<times> lru" where
  "ID E t sc =
     (case c_id (cache t) of
        Some cached \<Rightarrow> (cached, t, sc)
      | None \<Rightarrow>
          (let (r, t, sc) = Signer E t sc
           in (case r of
                 Inl err \<Rightarrow> (invalidTxID, t\<lparr>cache := (cache t)\<lparr>c_id := Some invalidTxID\<rparr>\<rparr>, sc)
               | Inr signer \<Rightarrow>
                   (let (i, t) = makeID E t signer
                    in (i, t\<lparr>cache := (cache t)\<lparr>c_id := Some i\<rparr>\<rparr>, sc)))))"

definition idToWork :: "Bytes32 \<Rightarrow> error + int" where
  "idToWork i = (let result = int (SetBytes i) in big_Div MaxBig256 result)"

definition ProvedWork :: "'pub env \<Rightarrow> Transaction \<Rightarrow> lru \<Rightarrow> (error + int) \<times> Transaction \<times> lru" where
  "ProvedWork E t sc =
     (let (r, t, sc) = Signer E t sc
      in case r of
           Inl err \<Rightarrow> (Inr 0, t, sc)
         | Inr _ \<Rightarrow> let (i, t, sc) = ID E t sc in (idToWork i, t, sc))"

definition EvaluateWork :: "'pub env \<Rightarrow> Transaction \<Rightarrow> Address \<Rightarrow> (error + int) \<times> Transaction" where
  "EvaluateWork E t signer = (let (i, t) = makeID E t signer in (idToWork i, t))"


section \<open>Overall gas price\<close>

text \<open>\<open>binary.BigEndian.PutUint64\<close> and \<open>binary.BigEndian.Uint32\<close>.\<close>

definition PutUint64 :: "uint64 \<Rightarrow> bytes" where
  "PutUint64 v =
     [ucast (drop_bit 56 v), ucast (drop_bit 48 v), ucast (drop_bit 40 v), ucast (drop_bit 32 v),
      ucast (drop_bit 24 v), ucast (drop_bit 16 v), ucast (drop_bit 8 v), ucast v]"

definition Uint32 :: "bytes \<Rightarrow> uint32" where
  "Uint32 b =
     ucast (b ! 3) OR push_bit 8 (ucast (b ! 2)) OR push_bit 16 (ucast (b ! 1))
       OR push_bit 24 (ucast (b ! 0))"

text \<open>\<open>Transaction.BlockRef\<close>: the eight bytes of \<open>body.BlockRef\<close>.\<close>

definition Transaction_BlockRef :: "Transaction \<Rightarrow> bytes" where
  "Transaction_BlockRef t = PutUint64 (BlockRef (body t))"

text \<open>
  Modelled from the spec: BlockRef.Number (block_ref.go is not under src/): "First 4 bytes =
  block number (big-endian)".
\<close>

definition Number :: "bytes \<Rightarrow> uint32" where
  "Number br = Uint32 (take 4 br)"

definition HasPrefix :: "bytes \<Rightarrow> bytes \<Rightarrow> bool" where
  "HasPrefix s pre = (length s \<ge> length pre \<and> take (length pre) s = pre)"

definition measureDelay ::
  "thor_params \<Rightarrow> Transaction \<Rightarrow> uint32 \<Rightarrow> (uint32 \<Rightarrow> Bytes32) \<Rightarrow> uint32" where
  "measureDelay P t headBlockNum getBlockID =
     (let ref = Transaction_BlockRef t;
          refNum = Number ref
      in if refNum \<ge> headBlockNum then MaxUint32
         else if headBlockNum - refNum > MaxTxWorkDelay P then MaxUint32
         else
           let i = getBlockID refNum
           in if HasPrefix i ref then headBlockNum - refNum else MaxUint32)"

definition OverallGasPrice ::
  "'pub env \<Rightarrow> thor_params \<Rightarrow> Transaction \<Rightarrow> lru \<Rightarrow> int \<Rightarrow> uint32 \<Rightarrow> (uint32 \<Rightarrow> Bytes32)
     \<Rightarrow> (error + int) \<times> Transaction \<times> lru" where
  "OverallGasPrice E P t sc baseGasPrice headBlockNum getBlockID =
     (case GasPrice t baseGasPrice of
        Inl err \<Rightarrow> (Inl err, t, sc)
      | Inr gasPrice \<Rightarrow>
          (if measureDelay P t headBlockNum getBlockID > MaxTxWorkDelay P
           then (Inr gasPrice, t, sc)
           else
             (let (w, t, sc) = ProvedWork E t sc
              in (case w of
                    Inl err \<Rightarrow> (Inl err, t, sc)
                  | Inr work \<Rightarrow>
                      (let wgas = workToGas E work headBlockNum;
                           wgas = (if wgas > Gas (body t) then Gas (body t) else wgas);
                           x = uint wgas;
                           x = x * baseGasPrice
                       in (case big_Div x (uint (Gas (body t))) of
                             Inl err \<Rightarrow> (Inl err, t, sc)
                           | Inr x \<Rightarrow> (Inr (x + gasPrice), t, sc)))))))"

section \<open>Attaching a signature\<close>

text \<open>
  \<open>WithSignature\<close> takes a pointer and returns a pointer to a new object, so it is
  modelled on a store: the transactions allocated so far, addressed by their index, and the
  process-wide signer cache. \<open>&newTx\<close> allocates the next address; a receiver that is not
  allocated is the nil dereference.
\<close>

record world =
  heap :: "Transaction list"
  signerCache :: lru

definition WithSignature :: "world \<Rightarrow> nat \<Rightarrow> bytes \<Rightarrow> (nat \<times> world) option" where
  "WithSignature w t sig =
     (if t < length (heap w)
      then
        let newTx = \<lparr>body = body (heap w ! t), cache = empty_cache\<rparr>;
            newTx = newTx\<lparr>body := (body newTx)\<lparr>Signature := sig\<rparr>\<rparr>
        in Some (length (heap w), w\<lparr>heap := heap w @ [newTx]\<rparr>)
      else None)"

section \<open>Reference values and cache invariants\<close>

text \<open>
  What the memoised methods compute from the immutable body alone: the signing hash, the
  recovered signer and the id. A cache cell is consistent when it is unset or holds that
  value; the signer cache is consistent for a transaction when the entry under the
  transaction's fingerprint, if there is one, is its recovered signer. Every method below
  keeps both invariants, and a transaction built by \<open>WithSignature\<close> or by decoding starts
  with all cells unset.
\<close>

definition signing_hash_of :: "'pub env \<Rightarrow> body \<Rightarrow> Bytes32" where
  "signing_hash_of E b =
     Keccak256 E (rlp_encode (List
       [rlp_uint (unat (ChainTag b)), rlp_uint (unat (Nonce b)), rlp_uint (unat (BlockRef b)),
        List (map rlp_clause (Clauses b)), rlp_uint (unat (GasPriceCoef b)),
        rlp_uint (unat (Gas b)), rlp_ptr (DependsOn b), List (Reserved b)]))"

definition recover :: "'pub env \<Rightarrow> body \<Rightarrow> error + Address" where
  "recover E b =
     (case SigToPub E (signing_hash_of E b) (Signature b) of
        Inl err \<Rightarrow> Inl err
      | Inr pub \<Rightarrow> Inr (PubkeyToAddress E pub))"

definition id_of :: "'pub env \<Rightarrow> body \<Rightarrow> Bytes32" where
  "id_of E b =
     (case recover E b of
        Inl err \<Rightarrow> invalidTxID
      | Inr signer \<Rightarrow> Keccak256 E (signing_hash_of E b @ signer))"

definition cache_ok :: "'pub env \<Rightarrow> Transaction \<Rightarrow> bool" where
  "cache_ok E t =
     ((case c_signingHash (cache t) of None \<Rightarrow> True | Some h \<Rightarrow> h = signing_hash_of E (body t)) \<and>
      (case c_signer (cache t) of None \<Rightarrow> True | Some a \<Rightarrow> recover E (body t) = Inr a) \<and>
      (case c_id (cache t) of None \<Rightarrow> True | Some i \<Rightarrow> i = id_of E (body t)))"

definition lru_ok :: "'pub env \<Rightarrow> Transaction \<Rightarrow> lru \<Rightarrow> bool" where
  "lru_ok E t sc =
     (case map_of sc (Keccak256 E (EncodeRLP t)) of
        None \<Rightarrow> True
      | Some a \<Rightarrow> recover E (body t) = Inr a)"

text \<open>
  The intrinsic gas the specification names, computed over the natural numbers: per clause
  \<open>n * Z + m * NZ\<close> for the \<open>n\<close> zero and \<open>m\<close> non-zero bytes of its data, plus the clause's
  fixed cost.
\<close>

definition zeros :: "bytes \<Rightarrow> nat" where
  "zeros data = length (filter (\<lambda>byt. byt = 0) data)"

definition nonzeros :: "bytes \<Rightarrow> nat" where
  "nonzeros data = length (filter (\<lambda>byt. byt \<noteq> 0) data)"

definition data_cost :: "thor_params \<Rightarrow> bytes \<Rightarrow> nat" where
  "data_cost P data =
     zeros data * unat (TxDataZeroGas P) + nonzeros data * unat (TxDataNonZeroGas P)"

definition clause_cost :: "thor_params \<Rightarrow> Clause \<Rightarrow> nat" where
  "clause_cost P c =
     data_cost P (Data c)
       + unat (if To c = None then ClauseGasContractCreation P else ClauseGas P)"

definition clauses_cost :: "thor_params \<Rightarrow> Clause list \<Rightarrow> nat" where
  "clauses_cost P cs = sum_list (map (clause_cost P) cs)"

text \<open>The result of a gas computation read as a natural number.\<close>

definition gas_value :: "error + uint64 \<Rightarrow> error + nat" where
  "gas_value r = (case r of Inl err \<Rightarrow> Inl err | Inr g \<Rightarrow> Inr (unat g))"

definition checked :: "nat \<Rightarrow> error + nat" where
  "checked n = (if n < 2 ^ 64 then Inr n else Inl ErrOutOfGas)"

text \<open>Truncating division (\<open>big.Int.Quo\<close>), the division the specification names.\<close>

definition quo_trunc :: "int \<Rightarrow> int \<Rightarrow> int" where
  "quo_trunc a b = sgn a * sgn b * (\<bar>a\<bar> div \<bar>b\<bar>)"

text \<open>
  The bodies the codec can encode: addresses have 20 bytes and \<open>DependsOn\<close> 32, and every
  string and every list payload is shorter than \<open>2 ^ 64\<close> bytes, the largest length a header
  can carry.
\<close>

fun valid_item :: "rlp_item \<Rightarrow> bool" where
  "valid_item (String bs) = (length bs < 2 ^ 64)"
| "valid_item (List xs) =
     (list_all valid_item xs \<and> length (concat (map rlp_encode xs)) < 2 ^ 64)"

definition valid_ptr :: "nat \<Rightarrow> bytes option \<Rightarrow> bool" where
  "valid_ptr n p = (case p of None \<Rightarrow> True | Some a \<Rightarrow> length a = n)"

definition valid_body :: "body \<Rightarrow> bool" where
  "valid_body b =
     (list_all (\<lambda>c. valid_ptr 20 (To c)) (Clauses b) \<and> valid_ptr 32 (DependsOn b)
      \<and> valid_item (rlp_body b))"

section \<open>Concrete inputs\<close>

definition tx0 :: Transaction where
  "tx0 = \<lparr>body = \<lparr>ChainTag = 1, Nonce = 0, BlockRef = 0, Clauses = [], GasPriceCoef = 128,
            Gas = 21000, DependsOn = None, Reserved = [], Signature = []\<rparr>, cache = empty_cache\<rparr>"

definition params0 :: thor_params where
  "params0 = \<lparr>TxGas = 5000, ClauseGas = 16000, ClauseGasContractCreation = 48000,
              TxDataZeroGas = 4, TxDataNonZeroGas = 68, MaxTxWorkDelay = 30\<rparr>"

text \<open>
  Three instances of the primitives, over the one-element type of public keys: signature
  recovery that always fails, recovery that always succeeds, and a hash function whose
  digest is all zero.
\<close>

definition E_fail :: "unit env" where
  "E_fail = \<lparr>Keccak256 = (\<lambda>bs. replicate 32 1),
             SigToPub = (\<lambda>h sig. Inl ErrSigToPub),
             PubkeyToAddress = (\<lambda>pub. replicate 20 0),
             workToGas = (\<lambda>work blockNum. 1000)\<rparr>"

definition E_ok :: "unit env" where
  "E_ok = E_fail\<lparr>SigToPub := (\<lambda>h sig. Inr ())\<rparr>"

definition E_zero :: "unit env" where
  "E_zero = E_ok\<lparr>Keccak256 := (\<lambda>bs. replicate 32 0)\<rparr>"

text \<open>
  A transaction that refers to block 10 with the hash bytes \<open>de ad be ef\<close>, a declared gas of
  zero, and a chain whose block 10 has an id with that prefix.
\<close>

definition tx1 :: Transaction where
  "tx1 = \<lparr>body = \<lparr>ChainTag = 1, Nonce = 7, BlockRef = 0x0000000ADEADBEEF, Clauses = [],
            GasPriceCoef = 0, Gas = 0, DependsOn = None, Reserved = [], Signature = []\<rparr>,
          cache = empty_cache\<rparr>"

definition chain1 :: "uint32 \<Rightarrow> Bytes32" where
  "chain1 n = [0, 0, 0, ucast n, 0xDE, 0xAD, 0xBE, 0xEF] @ replicate 24 0"

definition world0 :: world where
  "world0 = \<lparr>heap = [tx0], signerCache = []\<rparr>"

definition world1 :: world where
  "world1 = \<lparr>heap = [tx0, tx0\<lparr>body := (body tx0)\<lparr>Signature := [1, 2, 3]\<rparr>\<rparr>],
              signerCache = []\<rparr>"

definition world2 :: world where
  "world2 = \<lparr>heap = [tx0, tx0\<lparr>body := (body tx0)\<lparr>Signature := [1, 2, 3]\<rparr>\<rparr>,
                      tx0\<lparr>body := (body tx0)\<lparr>Signature := [9]\<rparr>\<rparr>],
              signerCache = []\<rparr>"

text \<open>
  A transaction with one contract-creation clause whose data has one zero and two non-zero
  bytes, and constants under which two non-zero bytes already cost \<open>2 ^ 64\<close>.
\<close>

definition tx2 :: Transaction where
  "tx2 = \<lparr>body = \<lparr>ChainTag = 1, Nonce = 0, BlockRef = 0,
                   Clauses = [\<lparr>To = None, Value = 0, Data = [0, 1, 2]\<rparr>],
                   GasPriceCoef = 0, Gas = 100000, DependsOn = None, Reserved = [],
                   Signature = []\<rparr>,
          cache = empty_cache\<rparr>"

definition params_big :: thor_params where
  "params_big = params0\<lparr>TxDataNonZeroGas := 0x8000000000000000\<rparr>"

text \<open>
  A body with two clauses (a call and a contract creation), no \<open>DependsOn\<close> and two reserved
  entries, one of them a list.
\<close>

definition tx3 :: Transaction where
  "tx3 = \<lparr>body = \<lparr>ChainTag = 0x4A, Nonce = 300, BlockRef = 0x0000000ADEADBEEF,
                   Clauses = [\<lparr>To = Some (replicate 20 7), Value = 1000, Data = [0, 1, 2]\<rparr>,
                              \<lparr>To = None, Value = 0, Data = []\<rparr>],
                   GasPriceCoef = 128, Gas = 21000, DependsOn = None,
                   Reserved = [String [1, 2], List [String []]],
                   Signature = replicate 65 9\<rparr>,
          cache = empty_cache\<rparr>"

section \<open>Gas price\<close>

lemma quo_trunc_nonneg: "0 \<le> a \<Longrightarrow> 0 < b \<Longrightarrow> quo_trunc a b = a div b"
  by (cases "a = 0") (simp_all add: quo_trunc_def)

text \<open>
  C5. For every transaction and every non-negative base gas price, \<open>GasPrice\<close> returns
  \<open>baseGasPrice + baseGasPrice * gasPriceCoef / 255\<close>, the division being truncating integer
  division and \<open>gasPriceCoef\<close> the value of the transaction's \<open>uint8\<close> coefficient.
\<close>

theorem GasPrice_formula:
  assumes "0 \<le> baseGasPrice"
  shows "GasPrice t baseGasPrice =
           Inr (baseGasPrice + quo_trunc (baseGasPrice * uint (GasPriceCoef (body t))) 255)"
proof -
  have "0 \<le> baseGasPrice * uint (GasPriceCoef (body t))"
    using assms by simp
  then have "quo_trunc (baseGasPrice * uint (GasPriceCoef (body t))) 255
               = (baseGasPrice * uint (GasPriceCoef (body t))) div 255"
    by (simp add: quo_trunc_nonneg)
  then show ?thesis
    by (simp add: GasPrice_def big_Div_def MaxUint8_def Let_def mult.commute)
qed

theorem GasPrice_formula_witness:
  "(0::int) \<le> 1000 \<and> GasPrice tx0 1000 = Inr 1501"
  using GasPrice_formula [of 1000 tx0] by (simp add: tx0_def quo_trunc_def)

section \<open>Cache invariants\<close>

lemma cache_ok_empty: "cache_ok E \<lparr>body = b, cache = empty_cache\<rparr>"
  by (simp add: cache_ok_def empty_cache_def)

lemma SigningHash_ok:
  assumes "cache_ok E t" and "SigningHash E t = (h, t')"
  shows "h = signing_hash_of E (body t)" and "body t' = body t" and "cache_ok E t'"
    and "c_signer (cache t') = c_signer (cache t)" and "c_id (cache t') = c_id (cache t)"
  using assms
  by (auto simp: SigningHash_def cache_ok_def signing_hash_of_def Let_def split: option.splits)

lemma map_of_filter_neq: "k' \<noteq> k \<Longrightarrow> map_of (filter (\<lambda>e. fst e \<noteq> k) c) k' = map_of c k'"
  by (induction c) auto

lemma lru_Get_lookup:
  "lru_Get k c = (r, c') \<Longrightarrow> r = map_of c k \<and> (\<forall>k'. map_of c' k' = map_of c k')"
  by (auto simp: lru_Get_def map_of_filter_neq split: option.splits)

lemma map_of_take_Some: "map_of (take n c) k = Some v \<Longrightarrow> map_of c k = Some v"
proof (induction c arbitrary: n)
  case Nil
  then show ?case by simp
next
  case (Cons e c)
  then show ?case by (cases n) (auto split: if_splits)
qed

lemma lru_Add_lookup:
  "map_of (lru_Add k v c) k' = Some a \<Longrightarrow> (k' = k \<and> a = v) \<or> map_of c k' = Some a"
  by (cases "k' = k")
     (auto simp: lru_Add_def map_of_filter_neq split: option.splits if_splits
           dest!: map_of_take_Some)

lemma Signer_cached:
  "c_signer (cache t) = Some a \<Longrightarrow> Signer E t sc = (Inr a, t, sc)"
  by (simp add: Signer_def)

lemma Signer_hit:
  assumes "c_signer (cache t) = None" and "map_of sc (Keccak256 E (EncodeRLP t)) = Some v"
  shows "Signer E t sc =
           (Inr v, t\<lparr>cache := (cache t)\<lparr>c_signer := Some v\<rparr>\<rparr>,
            (Keccak256 E (EncodeRLP t), v) # filter (\<lambda>e. fst e \<noteq> Keccak256 E (EncodeRLP t)) sc)"
  using assms by (simp add: Signer_def lru_Get_def Let_def)

lemma Signer_miss_fail:
  assumes "c_signer (cache t) = None" and "map_of sc (Keccak256 E (EncodeRLP t)) = None"
    and "SigningHash E t = (h, t1)" and "SigToPub E h (Signature (body t1)) = Inl err"
  shows "Signer E t sc = (Inl err, t1, sc)"
  using assms by (simp add: Signer_def lru_Get_def Let_def)

lemma Signer_miss_ok:
  assumes "c_signer (cache t) = None" and "map_of sc (Keccak256 E (EncodeRLP t)) = None"
    and "SigningHash E t = (h, t1)" and "SigToPub E h (Signature (body t1)) = Inr pub"
  shows "Signer E t sc =
           (Inr (PubkeyToAddress E pub),
            t1\<lparr>cache := (cache t1)\<lparr>c_signer := Some (PubkeyToAddress E pub)\<rparr>\<rparr>,
            lru_Add (Keccak256 E (EncodeRLP t)) (PubkeyToAddress E pub) sc)"
  using assms by (simp add: Signer_def lru_Get_def Let_def)

lemma cache_ok_set_signer:
  "cache_ok E t \<Longrightarrow> recover E (body t) = Inr a \<Longrightarrow>
     cache_ok E (t\<lparr>cache := (cache t)\<lparr>c_signer := Some a\<rparr>\<rparr>)"
  by (simp add: cache_ok_def split: option.splits)

lemma lru_ok_body: "body t' = body t \<Longrightarrow> lru_ok E t' sc = lru_ok E t sc"
  by (simp add: lru_ok_def EncodeRLP_def split: option.splits)

lemma lru_ok_front:
  "lru_ok E t sc \<Longrightarrow> lru_ok E t ((k, v) # filter (\<lambda>e. fst e \<noteq> k) sc) =
     (Keccak256 E (EncodeRLP t) = k \<longrightarrow> recover E (body t) = Inr v)"
  by (simp add: lru_ok_def map_of_filter_neq)

lemma lru_ok_Add:
  assumes "lru_ok E t sc" and "Keccak256 E (EncodeRLP t) = k \<Longrightarrow> recover E (body t) = Inr v"
  shows "lru_ok E t (lru_Add k v sc)"
proof (cases "map_of (lru_Add k v sc) (Keccak256 E (EncodeRLP t))")
  case None
  then show ?thesis by (simp add: lru_ok_def)
next
  case (Some a)
  from lru_Add_lookup [OF Some] assms show ?thesis
    using Some by (auto simp: lru_ok_def)
qed

lemma Signer_ok:
  assumes ok: "cache_ok E t" and lok: "lru_ok E t sc" and S: "Signer E t sc = (r, t', sc')"
  shows "r = recover E (body t) \<and> body t' = body t \<and> cache_ok E t' \<and> lru_ok E t' sc'
         \<and> c_id (cache t') = c_id (cache t)
         \<and> (\<forall>a. r = Inr a \<longrightarrow> c_signer (cache t') = Some a)"
proof (cases "c_signer (cache t)")
  case (Some a)
  have rv: "recover E (body t) = Inr a"
    using ok Some by (simp add: cache_ok_def)
  have "r = Inr a" "t' = t" "sc' = sc"
    using S Some by (simp_all add: Signer_cached)
  then show ?thesis
    using ok lok Some rv by simp
next
  case None
  let ?k = "Keccak256 E (EncodeRLP t)"
  show ?thesis
  proof (cases "map_of sc ?k")
    case (Some v)
    have rv: "recover E (body t) = Inr v"
      using lok Some by (simp add: lru_ok_def)
    have eq: "r = Inr v" "t' = t\<lparr>cache := (cache t)\<lparr>c_signer := Some v\<rparr>\<rparr>"
         "sc' = (?k, v) # filter (\<lambda>e. fst e \<noteq> ?k) sc"
      using S Signer_hit [OF None Some] by simp_all
    have b: "body t' = body t" by (simp add: eq)
    have "lru_ok E t sc'"
      unfolding eq(3) using lru_ok_front [OF lok, of ?k v] rv by simp
    then have "lru_ok E t' sc'" by (simp add: lru_ok_body [OF b])
    moreover have "cache_ok E t'"
      unfolding eq(2) by (rule cache_ok_set_signer [OF ok rv])
    ultimately show ?thesis
      using rv by (simp add: eq)
  next
    case miss: None
    obtain h t1 where h: "SigningHash E t = (h, t1)"
      by (cases "SigningHash E t")
    note sh = SigningHash_ok [OF ok h]
    show ?thesis
    proof (cases "SigToPub E h (Signature (body t1))")
      case (Inl err)
      have eq: "r = Inl err" "t' = t1" "sc' = sc"
        using S Signer_miss_fail [OF None miss h Inl] by simp_all
      have "recover E (body t) = Inl err"
        using Inl sh(1,2) by (simp add: recover_def)
      then show ?thesis
        using sh lok by (simp add: eq lru_ok_body [OF sh(2)])
    next
      case (Inr pub)
      let ?a = "PubkeyToAddress E pub"
      have eq: "r = Inr ?a" "t' = t1\<lparr>cache := (cache t1)\<lparr>c_signer := Some ?a\<rparr>\<rparr>"
         "sc' = lru_Add ?k ?a sc"
        using S Signer_miss_ok [OF None miss h Inr] by simp_all
      have rv: "recover E (body t) = Inr ?a"
        using Inr sh(1,2) by (simp add: recover_def)
      have b: "body t' = body t" by (simp add: eq sh(2))
      have "lru_ok E t sc'"
        unfolding eq(3) by (rule lru_ok_Add [OF lok]) (rule rv)
      then have l: "lru_ok E t' sc'" by (simp add: lru_ok_body [OF b])
      have "cache_ok E t'"
        unfolding eq(2) by (rule cache_ok_set_signer [OF sh(3)]) (simp add: sh(2) rv)
      then show ?thesis
        using rv l b by (simp add: eq sh(5))
    qed
  qed
qed

lemma makeID_ok:
  assumes "cache_ok E t" and "makeID E t s = (i, t')"
  shows "i = Keccak256 E (signing_hash_of E (body t) @ s) \<and> body t' = body t \<and> cache_ok E t'
         \<and> c_signer (cache t') = c_signer (cache t) \<and> c_id (cache t') = c_id (cache t)"
proof -
  obtain h t1 where h: "SigningHash E t = (h, t1)"
    by (cases "SigningHash E t")
  from SigningHash_ok [OF assms(1) h] assms(2) h show ?thesis
    by (simp add: makeID_def)
qed

lemma cache_ok_set_id:
  "cache_ok E t \<Longrightarrow> i = id_of E (body t) \<Longrightarrow>
     cache_ok E (t\<lparr>cache := (cache t)\<lparr>c_id := Some i\<rparr>\<rparr>)"
  by (simp add: cache_ok_def split: option.splits)

lemma ID_cached: "c_id (cache t) = Some i \<Longrightarrow> ID E t sc = (i, t, sc)"
  by (simp add: ID_def)

lemma ID_fail:
  assumes "c_id (cache t) = None" and "Signer E t sc = (Inl err, t1, sc1)"
  shows "ID E t sc = (invalidTxID, t1\<lparr>cache := (cache t1)\<lparr>c_id := Some invalidTxID\<rparr>\<rparr>, sc1)"
  using assms by (simp add: ID_def)

lemma ID_signed:
  assumes "c_id (cache t) = None" and "Signer E t sc = (Inr s, t1, sc1)"
    and "makeID E t1 s = (i, t2)"
  shows "ID E t sc = (i, t2\<lparr>cache := (cache t2)\<lparr>c_id := Some i\<rparr>\<rparr>, sc1)"
  using assms by (simp add: ID_def)

lemma ID_ok:
  assumes ok: "cache_ok E t" and lok: "lru_ok E t sc" and I: "ID E t sc = (i, t', sc')"
  shows "i = id_of E (body t) \<and> body t' = body t \<and> cache_ok E t' \<and> lru_ok E t' sc'
         \<and> c_id (cache t') = Some i"
proof (cases "c_id (cache t)")
  case (Some j)
  have "i = j" "t' = t" "sc' = sc"
    using I Some by (simp_all add: ID_cached)
  moreover have "j = id_of E (body t)"
    using ok Some by (simp add: cache_ok_def)
  ultimately show ?thesis
    using ok lok Some by simp
next
  case None
  obtain r t1 sc1 where S: "Signer E t sc = (r, t1, sc1)"
    by (cases "Signer E t sc")
  note s = Signer_ok [OF ok lok S]
  have b1: "body t1 = body t" and ok1: "cache_ok E t1" and lok1: "lru_ok E t1 sc1"
    and r: "r = recover E (body t)"
    using s by simp_all
  show ?thesis
  proof (cases r)
    case (Inl err)
    have eq: "i = invalidTxID" "t' = t1\<lparr>cache := (cache t1)\<lparr>c_id := Some invalidTxID\<rparr>\<rparr>" "sc' = sc1"
      using I ID_fail [OF None S [unfolded Inl]] by auto
    have rv: "recover E (body t) = Inl err"
      using r Inl by simp
    have v: "invalidTxID = id_of E (body t1)"
      by (simp add: id_of_def b1 rv)
    have "cache_ok E t'"
      unfolding eq(2) by (rule cache_ok_set_id [OF ok1 v])
    moreover have bb: "body t' = body t1" by (simp add: eq)
    have "lru_ok E t' sc'"
      using lok1 by (simp add: lru_ok_body [OF bb] eq(3))
    ultimately show ?thesis
      using v by (simp add: eq b1)
  next
    case (Inr a)
    obtain j t2 where M: "makeID E t1 a = (j, t2)"
      by (cases "makeID E t1 a")
    note m = makeID_ok [OF ok1 M]
    have eq: "i = j" "t' = t2\<lparr>cache := (cache t2)\<lparr>c_id := Some j\<rparr>\<rparr>" "sc' = sc1"
      using I ID_signed [OF None S [unfolded Inr] M] by auto
    have b2: "body t2 = body t" using m b1 by simp
    have rv: "recover E (body t) = Inr a"
      using r Inr by simp
    have v: "j = id_of E (body t2)"
      using m by (simp add: id_of_def b1 b2 rv)
    have "cache_ok E t'"
      unfolding eq(2) by (rule cache_ok_set_id) (use m v in simp_all)
    moreover have bb: "body t' = body t1" by (simp add: eq b1 b2)
    have "lru_ok E t' sc'"
      using lok1 by (simp add: lru_ok_body [OF bb] eq(3))
    ultimately show ?thesis
      using v by (simp add: eq b2)
  qed
qed

section \<open>The invalid id\<close>

lemma be_bytes_all_ones: "be_bytes (256 ^ k - 1) = replicate k (255 :: byte)"
proof (induction k)
  case 0
  show ?case by simp
next
  case (Suc k)
  have pos: "(256::nat) ^ k > 0" by simp
  have split: "256 ^ Suc k - 1 = (256 ^ k - 1) * 256 + (255::nat)"
    using pos by (simp add: algebra_simps)
  have d: "(256 ^ Suc k - 1) div 256 = (256::nat) ^ k - 1"
    unfolding split by simp
  have m: "(256 ^ Suc k - 1) mod 256 = (255::nat)"
    unfolding split by simp
  have "(1::nat) < 256 ^ Suc k"
    by (rule one_less_power) simp_all
  then have nz: "(256::nat) ^ Suc k - 1 \<noteq> 0"
    by simp
  have "be_bytes (256 ^ Suc k - 1)
          = be_bytes ((256 ^ Suc k - 1) div 256) @ [of_nat ((256 ^ Suc k - 1) mod 256)]"
    using nz by (subst be_bytes.simps) simp
  also have "\<dots> = replicate k 255 @ [255]"
    unfolding d m using Suc.IH by simp
  finally show ?case by (simp add: replicate_append_same)
qed

lemma invalidTxID_eq: "invalidTxID = replicate 32 255"
proof -
  have "nat MaxBig256 = 256 ^ 32 - 1"
    by (simp add: MaxBig256_def)
  then show ?thesis
    using be_bytes_all_ones [of 32] by (simp add: invalidTxID_def BytesToBytes32_def)
qed

lemma SetBytes_zeros: "SetBytes (replicate n 0) = 0"
  by (induction n) (simp_all add: SetBytes_def)

section \<open>The id of a transaction without a signer\<close>

lemma Signer_fail_recover:
  assumes ok: "cache_ok E t" and S: "fst (Signer E t sc) = Inl err"
  shows "recover E (body t) = Inl err \<and> c_signer (cache t) = None"
proof (cases "c_signer (cache t)")
  case (Some a)
  with S show ?thesis by (simp add: Signer_cached)
next
  case None
  let ?k = "Keccak256 E (EncodeRLP t)"
  show ?thesis
  proof (cases "map_of sc ?k")
    case (Some v)
    with S None show ?thesis by (simp add: Signer_hit)
  next
    case miss: None
    obtain h t1 where h: "SigningHash E t = (h, t1)"
      by (cases "SigningHash E t")
    note sh = SigningHash_ok [OF ok h]
    show ?thesis
    proof (cases "SigToPub E h (Signature (body t1))")
      case (Inl e)
      have "err = e"
        using S Signer_miss_fail [OF None miss h Inl] by simp
      then show ?thesis
        using Inl sh(1,2) None by (simp add: recover_def)
    next
      case (Inr pub)
      show ?thesis
        using S Signer_miss_ok [OF None miss h Inr] by simp
    qed
  qed
qed

text \<open>
  C1, as the code has it. For every transaction whose \<open>Signer\<close> fails, \<open>ID\<close> returns the
  invalid-id sentinel, and the deferred store runs on that path too: after the call the id cell
  holds the sentinel, and every later \<open>ID\<close> call returns the cell's content and leaves the
  transaction and the signer cache as they are, so nothing is recomputed.
\<close>

theorem ID_signer_fails:
  assumes ok: "cache_ok E t" and S: "fst (Signer E t sc) = Inl err" and I: "ID E t sc = (i, t', sc')"
  shows "i = invalidTxID \<and> c_id (cache t') = Some invalidTxID
         \<and> (\<forall>sc''. ID E t' sc'' = (invalidTxID, t', sc''))"
proof -
  have rv: "recover E (body t) = Inl err"
    using Signer_fail_recover [OF ok S] by simp
  have c: "i = invalidTxID \<and> c_id (cache t') = Some invalidTxID"
  proof (cases "c_id (cache t)")
    case (Some j)
    have "j = id_of E (body t)"
      using ok Some by (simp add: cache_ok_def)
    then have "j = invalidTxID"
      by (simp add: id_of_def rv)
    then show ?thesis
      using I Some by (auto simp: ID_cached)
  next
    case None
    obtain r t1 sc1 where S1: "Signer E t sc = (r, t1, sc1)"
      by (cases "Signer E t sc")
    with S have "r = Inl err" by simp
    then show ?thesis
      using I ID_fail [OF None S1 [unfolded \<open>r = Inl err\<close>]] by auto
  qed
  then show ?thesis
    by (simp add: ID_cached)
qed


theorem ID_signer_fails_witness:
  "cache_ok E_fail tx0 \<and> fst (Signer E_fail tx0 []) = Inl ErrSigToPub
   \<and> fst (ID E_fail tx0 []) = invalidTxID
   \<and> c_id (cache (fst (snd (ID E_fail tx0 [])))) = Some invalidTxID"
proof -
  have ok: "cache_ok E_fail tx0"
    by (simp add: tx0_def cache_ok_empty)
  have S: "fst (Signer E_fail tx0 []) = Inl ErrSigToPub"
    by (simp add: Signer_def SigningHash_def lru_Get_def tx0_def empty_cache_def E_fail_def Let_def)
  obtain i t' sc' where I: "ID E_fail tx0 [] = (i, t', sc')"
    by (cases "ID E_fail tx0 []")
  from ID_signer_fails [OF ok S I] I ok S show ?thesis
    by simp
qed

text \<open>
  C1 as stated ("the sentinel value is never stored in the transaction's id cache, so each
  subsequent id() call on a signer-less transaction recomputes") fails: for a transaction
  whose signer cannot be recovered the id cell is unset before the first \<open>ID\<close> call and holds
  the sentinel after it; a later call answers from the cell even where a recomputation
  would give another id.
\<close>

theorem ID_sentinel_counterexample:
  "fst (Signer E_fail tx0 []) = Inl ErrSigToPub
   \<and> c_id (cache tx0) = None
   \<and> c_id (cache (fst (snd (ID E_fail tx0 [])))) = Some invalidTxID
   \<and> fst (ID E_ok tx0 []) \<noteq> invalidTxID
   \<and> fst (ID E_ok (fst (snd (ID E_fail tx0 []))) []) = invalidTxID"
  by (simp add: ID_def Signer_def SigningHash_def makeID_def lru_Get_def tx0_def empty_cache_def E_fail_def E_ok_def Let_def invalidTxID_eq)

section \<open>Proved work\<close>

lemma idToWork_nonzero:
  "SetBytes i \<noteq> 0 \<Longrightarrow> idToWork i = Inr (MaxBig256 div int (SetBytes i))"
  by (simp add: idToWork_def big_Div_def)

lemma idToWork_zero: "SetBytes i = 0 \<Longrightarrow> idToWork i = Inl DivisionByZero"
  by (simp add: idToWork_def big_Div_def)

lemma EvaluateWork_eq: "fst (EvaluateWork E t s) = idToWork (fst (makeID E t s))"
  by (simp add: EvaluateWork_def split: prod.splits)

lemma ProvedWork_unsigned:
  assumes "fst (Signer E t sc) = Inl err"
  shows "fst (ProvedWork E t sc) = Inr 0"
  using assms by (cases "Signer E t sc") (simp add: ProvedWork_def)

lemma ProvedWork_signed:
  assumes ok: "cache_ok E t" and lok: "lru_ok E t sc" and S: "fst (Signer E t sc) = Inr s"
  shows "fst (ProvedWork E t sc) = idToWork (id_of E (body t))"
    and "fst (ID E t sc) = id_of E (body t)"
    and "fst (makeID E t s) = id_of E (body t)"
proof -
  obtain r t1 sc1 where S1: "Signer E t sc = (r, t1, sc1)"
    by (cases "Signer E t sc")
  have r: "r = Inr s" using S S1 by simp
  note s = Signer_ok [OF ok lok S1]
  have ok1: "cache_ok E t1" and lok1: "lru_ok E t1 sc1" and b1: "body t1 = body t"
    and rv: "recover E (body t) = Inr s"
    using s r by simp_all
  obtain i t2 sc2 where I: "ID E t1 sc1 = (i, t2, sc2)"
    by (cases "ID E t1 sc1")
  have "i = id_of E (body t)"
    using ID_ok [OF ok1 lok1 I] b1 by simp
  then show "fst (ProvedWork E t sc) = idToWork (id_of E (body t))"
    using S1 r I by (simp add: ProvedWork_def)
  obtain i' t' sc' where I': "ID E t sc = (i', t', sc')"
    by (cases "ID E t sc")
  show "fst (ID E t sc) = id_of E (body t)"
    using ID_ok [OF ok lok I'] I' by simp
  obtain j t3 where M: "makeID E t s = (j, t3)"
    by (cases "makeID E t s")
  show "fst (makeID E t s) = id_of E (body t)"
    using makeID_ok [OF ok M] M by (simp add: id_of_def rv)
qed

lemma cache_ok_tx0: "cache_ok E tx0"
  by (simp add: tx0_def cache_ok_empty)

lemma lru_ok_Nil: "lru_ok E t []"
  by (simp add: lru_ok_def)

lemma Signer_E_ok_tx0: "fst (Signer E_ok tx0 []) = Inr (replicate 20 0)"
  by (simp add: Signer_def SigningHash_def lru_Get_def tx0_def empty_cache_def E_ok_def E_fail_def Let_def)

lemma Signer_E_fail_tx0: "fst (Signer E_fail tx0 []) = Inl ErrSigToPub"
  by (simp add: Signer_def SigningHash_def lru_Get_def tx0_def empty_cache_def E_fail_def Let_def)

lemma ID_E_ok_tx0: "fst (ID E_ok tx0 []) = replicate 32 1"
  by (simp add: ID_def makeID_def Signer_def SigningHash_def lru_Get_def tx0_def empty_cache_def E_ok_def E_fail_def Let_def)

lemma SetBytes_snoc: "SetBytes (bs @ [b]) = SetBytes bs * 256 + unat b"
  by (simp add: SetBytes_def)

lemma SetBytes_ones_pos: "SetBytes (replicate 32 1) \<noteq> 0"
proof -
  have "replicate (Suc 31) (1::byte) = replicate 31 1 @ [1]"
    by (simp only: replicate_append_same replicate_Suc)
  moreover have "(32::nat) = Suc 31" by simp
  ultimately have "replicate 32 (1::byte) = replicate 31 1 @ [1]"
    by (simp only:)
  then show ?thesis
    by (simp only: SetBytes_snoc) simp
qed

lemma Signer_E_zero_tx0: "fst (Signer E_zero tx0 []) = Inr (replicate 20 0)"
  by (simp add: Signer_def SigningHash_def lru_Get_def tx0_def empty_cache_def E_zero_def E_ok_def E_fail_def Let_def)

lemma ID_E_zero_tx0: "fst (ID E_zero tx0 []) = replicate 32 0"
  by (simp add: ID_def makeID_def Signer_def SigningHash_def lru_Get_def tx0_def empty_cache_def E_zero_def E_ok_def E_fail_def Let_def)

lemma makeID_E_zero_tx0: "fst (makeID E_zero tx0 s) = replicate 32 0"
  by (simp add: makeID_def SigningHash_def tx0_def empty_cache_def E_zero_def E_ok_def E_fail_def Let_def)

text \<open>
  C8. \<open>ProvedWork\<close> returns zero for every transaction whose \<open>Signer\<close> fails. For every
  transaction whose \<open>Signer\<close> succeeds with address \<open>s\<close> it returns what \<open>idToWork\<close> makes of
  \<open>ID\<close>, that is \<open>MaxBig256 / id\<close> (the quotient itself whenever the id is not zero), and this
  is what \<open>EvaluateWork\<close> returns for \<open>s\<close>. The cache cells and the signer cache are assumed
  consistent, as every method leaves them.
\<close>

theorem ProvedWork_cases:
  assumes ok: "cache_ok E t" and lok: "lru_ok E t sc"
  shows "(\<forall>err. fst (Signer E t sc) = Inl err \<longrightarrow> fst (ProvedWork E t sc) = Inr 0)
       \<and> (\<forall>s. fst (Signer E t sc) = Inr s \<longrightarrow>
             fst (ProvedWork E t sc) = idToWork (fst (ID E t sc))
           \<and> fst (ProvedWork E t sc) = fst (EvaluateWork E t s)
           \<and> (SetBytes (fst (ID E t sc)) \<noteq> 0 \<longrightarrow>
                fst (ProvedWork E t sc) = Inr (MaxBig256 div int (SetBytes (fst (ID E t sc))))))"
proof (intro conjI allI impI)
  fix err assume "fst (Signer E t sc) = Inl err"
  then show "fst (ProvedWork E t sc) = Inr 0" by (rule ProvedWork_unsigned)
next
  fix s assume S: "fst (Signer E t sc) = Inr s"
  note p = ProvedWork_signed [OF ok lok S]
  show "fst (ProvedWork E t sc) = idToWork (fst (ID E t sc))"
    by (simp add: p)
  show "fst (ProvedWork E t sc) = fst (EvaluateWork E t s)"
    by (simp add: p EvaluateWork_eq)
  assume "SetBytes (fst (ID E t sc)) \<noteq> 0"
  then show "fst (ProvedWork E t sc) = Inr (MaxBig256 div int (SetBytes (fst (ID E t sc))))"
    by (simp add: p idToWork_nonzero)
qed

theorem ProvedWork_cases_witness:
  "cache_ok E_ok tx0 \<and> lru_ok E_ok tx0 []
   \<and> fst (Signer E_ok tx0 []) = Inr (replicate 20 0)
   \<and> fst (ProvedWork E_ok tx0 []) = fst (EvaluateWork E_ok tx0 (replicate 20 0))
   \<and> fst (ProvedWork E_ok tx0 []) = Inr (MaxBig256 div int (SetBytes (replicate 32 1)))
   \<and> fst (Signer E_fail tx0 []) = Inl ErrSigToPub
   \<and> fst (ProvedWork E_fail tx0 []) = Inr 0"
proof -
  note signed = ProvedWork_cases [OF cache_ok_tx0 lru_ok_Nil, of E_ok]
  note unsigned = ProvedWork_cases [OF cache_ok_tx0 lru_ok_Nil, of E_fail]
  have nz: "SetBytes (fst (ID E_ok tx0 [])) \<noteq> 0"
    by (simp add: ID_E_ok_tx0 SetBytes_ones_pos)
  have a: "fst (ProvedWork E_ok tx0 []) = fst (EvaluateWork E_ok tx0 (replicate 20 0))"
    using signed Signer_E_ok_tx0 by blast
  have "fst (ProvedWork E_ok tx0 [])
          = Inr (MaxBig256 div int (SetBytes (fst (ID E_ok tx0 []))))"
    using signed Signer_E_ok_tx0 nz by blast
  then have b: "fst (ProvedWork E_ok tx0 []) = Inr (MaxBig256 div int (SetBytes (replicate 32 1)))"
    unfolding ID_E_ok_tx0 .
  have c: "fst (ProvedWork E_fail tx0 []) = Inr 0"
    using unsigned Signer_E_fail_tx0 by blast
  show ?thesis
    using cache_ok_tx0 [of E_ok] lru_ok_Nil [of E_ok tx0] Signer_E_ok_tx0 a b
          Signer_E_fail_tx0 c
    by (intro conjI) assumption+
qed

text \<open>
  C10. \<open>idToWork\<close> divides \<open>MaxBig256\<close> by the id read as an unsigned integer and checks
  nothing: for the all-zero 32-byte id, and only for an id whose value is zero, the division
  is a division by zero, so that \<open>EvaluateWork\<close> for a signer whose id is all zero and
  \<open>ProvedWork\<close> for a signed transaction with that id panic; for every other id the quotient
  is returned.
\<close>

theorem idToWork_zero_id:
  "idToWork (replicate 32 0) = Inl DivisionByZero
   \<and> (idToWork i = Inl DivisionByZero \<longleftrightarrow> SetBytes i = 0)
   \<and> (SetBytes i \<noteq> 0 \<longrightarrow> idToWork i = Inr (MaxBig256 div int (SetBytes i)))
   \<and> (fst (makeID E t s) = replicate 32 0 \<longrightarrow> fst (EvaluateWork E t s) = Inl DivisionByZero)
   \<and> (cache_ok E t \<and> lru_ok E t sc \<and> fst (Signer E t sc) = Inr s
        \<and> fst (ID E t sc) = replicate 32 0 \<longrightarrow> fst (ProvedWork E t sc) = Inl DivisionByZero)"
proof (intro conjI impI)
  show z: "idToWork (replicate 32 0) = Inl DivisionByZero"
    by (simp add: idToWork_zero SetBytes_zeros)
  show "idToWork i = Inl DivisionByZero \<longleftrightarrow> SetBytes i = 0"
    by (cases "SetBytes i = 0") (simp_all add: idToWork_zero idToWork_nonzero)
  show "SetBytes i \<noteq> 0 \<Longrightarrow> idToWork i = Inr (MaxBig256 div int (SetBytes i))"
    by (rule idToWork_nonzero)
  show "fst (makeID E t s) = replicate 32 0 \<Longrightarrow> fst (EvaluateWork E t s) = Inl DivisionByZero"
    by (simp add: EvaluateWork_eq z)
  assume a: "cache_ok E t \<and> lru_ok E t sc \<and> fst (Signer E t sc) = Inr s
        \<and> fst (ID E t sc) = replicate 32 0"
  then have ok: "cache_ok E t" and lok: "lru_ok E t sc" and S: "fst (Signer E t sc) = Inr s"
    and I: "fst (ID E t sc) = replicate 32 0" by simp_all
  from ProvedWork_signed [OF ok lok S] I z
  show "fst (ProvedWork E t sc) = Inl DivisionByZero" by simp
qed

theorem idToWork_zero_id_witness:
  "SetBytes (replicate 32 1) \<noteq> 0
   \<and> idToWork (replicate 32 1) = Inr (MaxBig256 div int (SetBytes (replicate 32 1)))
   \<and> fst (makeID E_zero tx0 (replicate 20 0)) = replicate 32 0
   \<and> fst (EvaluateWork E_zero tx0 (replicate 20 0)) = Inl DivisionByZero
   \<and> cache_ok E_zero tx0 \<and> lru_ok E_zero tx0 [] \<and> fst (Signer E_zero tx0 []) = Inr (replicate 20 0)
   \<and> fst (ID E_zero tx0 []) = replicate 32 0
   \<and> fst (ProvedWork E_zero tx0 []) = Inl DivisionByZero"
proof -
  note z = idToWork_zero_id [of "replicate 32 1" E_zero tx0 "replicate 20 0" "[]"]
  have a: "idToWork (replicate 32 1) = Inr (MaxBig256 div int (SetBytes (replicate 32 1)))"
    using z SetBytes_ones_pos by blast
  have b: "fst (EvaluateWork E_zero tx0 (replicate 20 0)) = Inl DivisionByZero"
    using z makeID_E_zero_tx0 by blast
  have c: "fst (ProvedWork E_zero tx0 []) = Inl DivisionByZero"
    using z cache_ok_tx0 lru_ok_Nil Signer_E_zero_tx0 ID_E_zero_tx0 by blast
  show ?thesis
    using SetBytes_ones_pos a makeID_E_zero_tx0 [of "replicate 20 0"] b
          cache_ok_tx0 [of E_zero] lru_ok_Nil [of E_zero tx0] Signer_E_zero_tx0 ID_E_zero_tx0 c
    by (intro conjI) assumption+
qed

section \<open>Delay measurement\<close>

lemma BlockRef_tx1: "Transaction_BlockRef tx1 = [0, 0, 0, 10, 0xDE, 0xAD, 0xBE, 0xEF]"
  by (simp add: Transaction_BlockRef_def PutUint64_def tx1_def drop_bit_eq_div)

lemma Number_ref1: "Number [0, 0, 0, 10, 0xDE, 0xAD, 0xBE, 0xEF] = 10"
  by (simp add: Number_def Uint32_def)

lemma Number_tx0: "Number (Transaction_BlockRef tx0) = 0"
  by (simp add: Transaction_BlockRef_def PutUint64_def tx0_def Number_def Uint32_def)

text \<open>
  C4. \<open>measureDelay\<close> returns the infinite delay \<open>MaxUint32\<close> when the referenced block
  number is not below the head block number, when the gap exceeds \<open>MaxTxWorkDelay\<close>, or when
  the id looked up at the referenced number does not start with the bytes of the block
  reference; in every other case it returns the gap, which is then the exact difference of
  the two numbers.
\<close>

theorem measureDelay_cases:
  "measureDelay P t headBlockNum getBlockID =
     (let ref = Transaction_BlockRef t; refNum = Number ref
      in if refNum \<ge> headBlockNum \<or> headBlockNum - refNum > MaxTxWorkDelay P
            \<or> \<not> HasPrefix (getBlockID refNum) ref
         then MaxUint32 else headBlockNum - refNum)
   \<and> (\<not> Number (Transaction_BlockRef t) \<ge> headBlockNum \<longrightarrow>
         unat (headBlockNum - Number (Transaction_BlockRef t))
           = unat headBlockNum - unat (Number (Transaction_BlockRef t)))"
  by (simp add: measureDelay_def Let_def unat_sub word_le_nat_alt)

theorem measureDelay_cases_witness:
  "measureDelay params0 tx1 15 chain1 = 5
   \<and> measureDelay params0 tx1 10 chain1 = MaxUint32
   \<and> measureDelay params0 tx1 41 chain1 = MaxUint32
   \<and> measureDelay params0 tx1 15 (\<lambda>n. replicate 32 0) = MaxUint32
   \<and> unat (15 - Number (Transaction_BlockRef tx1)) = 15 - unat (Number (Transaction_BlockRef tx1))"
  using measureDelay_cases [of params0 tx1 15 chain1]
        measureDelay_cases [of params0 tx1 10 chain1]
        measureDelay_cases [of params0 tx1 41 chain1]
        measureDelay_cases [of params0 tx1 15 "\<lambda>n. replicate 32 0"]
  by (simp add: Let_def Number_ref1 BlockRef_tx1 chain1_def HasPrefix_def params0_def MaxUint32_def)

section \<open>Overall gas price\<close>

lemma GasPrice_Inr:
  "GasPrice t b = Inr ((uint (GasPriceCoef (body t)) * b) div 255 + b)"
  by (simp add: GasPrice_def big_Div_def MaxUint8_def Let_def)

lemma idToWork_err: "idToWork i = Inl e \<Longrightarrow> e = DivisionByZero"
  by (simp add: idToWork_def big_Div_def Let_def split: if_splits)

lemma ProvedWork_err: "fst (ProvedWork E t sc) = Inl e \<Longrightarrow> e = DivisionByZero"
  by (auto simp: ProvedWork_def Let_def split: prod.splits sum.splits dest: idToWork_err)

lemma OverallGasPrice_delayed:
  assumes "measureDelay P t h g > MaxTxWorkDelay P"
  shows "OverallGasPrice E P t sc b h g = (GasPrice t b, t, sc)"
  using assms by (simp add: OverallGasPrice_def GasPrice_Inr)

lemma OverallGasPrice_panic:
  assumes "\<not> measureDelay P t h g > MaxTxWorkDelay P" and "ProvedWork E t sc = (Inl e, t1, sc1)"
  shows "OverallGasPrice E P t sc b h g = (Inl e, t1, sc1)"
  using assms by (simp add: OverallGasPrice_def GasPrice_Inr)

lemma SigningHash_body: "body (snd (SigningHash E t)) = body t"
  by (simp add: SigningHash_def Let_def split: option.splits)

lemma Signer_body: "body (fst (snd (Signer E t sc))) = body t"
proof (cases "c_signer (cache t)")
  case (Some a)
  then show ?thesis by (simp add: Signer_cached)
next
  case None
  show ?thesis
  proof (cases "map_of sc (Keccak256 E (EncodeRLP t))")
    case (Some v)
    then show ?thesis by (simp add: Signer_hit [OF None])
  next
    case miss: None
    obtain sh t1 where h: "SigningHash E t = (sh, t1)"
      by (cases "SigningHash E t")
    have b: "body t1 = body t"
      using SigningHash_body [of E t] h by simp
    show ?thesis
    proof (cases "SigToPub E sh (Signature (body t1))")
      case (Inl e)
      show ?thesis by (simp add: Signer_miss_fail [OF None miss h Inl] b)
    next
      case (Inr pub)
      show ?thesis by (simp add: Signer_miss_ok [OF None miss h Inr] b)
    qed
  qed
qed

lemma makeID_body: "body (snd (makeID E t s)) = body t"
  using SigningHash_body [of E t] by (cases "SigningHash E t") (simp add: makeID_def)

lemma ID_body: "body (fst (snd (ID E t sc))) = body t"
proof (cases "c_id (cache t)")
  case (Some i)
  then show ?thesis by (simp add: ID_cached)
next
  case None
  obtain r t1 sc1 where S: "Signer E t sc = (r, t1, sc1)"
    by (cases "Signer E t sc")
  have b1: "body t1 = body t"
    using Signer_body [of E t sc] S by simp
  show ?thesis
  proof (cases r)
    case (Inl e)
    show ?thesis by (simp add: ID_fail [OF None S [unfolded Inl]] b1)
  next
    case (Inr a)
    obtain i t2 where M: "makeID E t1 a = (i, t2)"
      by (cases "makeID E t1 a")
    have "body t2 = body t1"
      using makeID_body [of E t1 a] M by simp
    then show ?thesis by (simp add: ID_signed [OF None S [unfolded Inr] M] b1)
  qed
qed

lemma ProvedWork_body: "body (fst (snd (ProvedWork E t sc))) = body t"
proof -
  obtain r t1 sc1 where S: "Signer E t sc = (r, t1, sc1)"
    by (cases "Signer E t sc")
  have b1: "body t1 = body t"
    using Signer_body [of E t sc] S by simp
  obtain i t2 sc2 where I: "ID E t1 sc1 = (i, t2, sc2)"
    by (cases "ID E t1 sc1")
  have b2: "body t2 = body t1"
    using ID_body [of E t1 sc1] I by simp
  show ?thesis
    by (cases r) (simp_all add: ProvedWork_def S I b1 b2)
qed

lemma OverallGasPrice_work:
  assumes nd: "\<not> measureDelay P t h g > MaxTxWorkDelay P"
    and W: "fst (ProvedWork E t sc) = Inr work"
  shows "fst (OverallGasPrice E P t sc b h g) =
           (case big_Div (uint (min (workToGas E work h) (Gas (body t))) * b) (uint (Gas (body t))) of
              Inl err \<Rightarrow> Inl err
            | Inr q \<Rightarrow> Inr (q + ((uint (GasPriceCoef (body t)) * b) div 255 + b)))"
proof -
  obtain w t1 sc1 where PW: "ProvedWork E t sc = (w, t1, sc1)"
    by (cases "ProvedWork E t sc")
  have w: "w = Inr work" using W PW by simp
  have b1: "body t1 = body t"
    using ProvedWork_body [of E t sc] PW by simp
  let ?G = "Gas (body t)"
  let ?gp = "(uint (GasPriceCoef (body t)) * b) div 255 + b"
  have unfold: "fst (OverallGasPrice E P t sc b h g) =
          (case big_Div (uint (if workToGas E work h > ?G then ?G else workToGas E work h) * b) (uint ?G) of
             Inl err \<Rightarrow> Inl err
           | Inr q \<Rightarrow> Inr (q + ?gp))"
    using nd by (simp add: OverallGasPrice_def GasPrice_Inr PW w b1 Let_def split: sum.splits)
  show ?thesis
  proof (cases "workToGas E work h > ?G")
    case True
    then have "min (workToGas E work h) ?G = ?G" by simp
    then show ?thesis using True unfold by simp
  next
    case False
    then have "min (workToGas E work h) ?G = workToGas E work h" by simp
    then show ?thesis using False unfold by simp
  qed
qed

lemma measureDelay_tx1: "measureDelay params0 tx1 15 chain1 = 5"
  by (simp add: measureDelay_def Let_def Number_ref1 BlockRef_tx1 chain1_def HasPrefix_def params0_def)

lemma measureDelay_tx0_head5: "measureDelay params0 tx0 5 (\<lambda>n. replicate 32 0) = 5"
  by (simp add: measureDelay_def Let_def Transaction_BlockRef_def PutUint64_def tx0_def Number_def
        Uint32_def HasPrefix_def params0_def)

lemma measureDelay_tx0_head0: "measureDelay params0 tx0 0 (\<lambda>n. replicate 32 0) = MaxUint32"
  by (simp add: measureDelay_def Let_def Transaction_BlockRef_def PutUint64_def tx0_def Number_def
        Uint32_def)

lemma ProvedWork_E_ok_tx0:
  "fst (ProvedWork E_ok tx0 []) = Inr (MaxBig256 div int (SetBytes (replicate 32 1)))"
proof -
  note p = ProvedWork_signed(1,2) [OF cache_ok_tx0 lru_ok_Nil Signer_E_ok_tx0]
  have "id_of E_ok (body tx0) = replicate 32 1"
    using p(2) by (simp add: ID_E_ok_tx0)
  then show ?thesis
    using p(1) by (simp add: idToWork_nonzero SetBytes_ones_pos)
qed

lemma MaxTxWorkDelay_params0: "MaxTxWorkDelay params0 = 30"
  by (simp add: params0_def)

lemma GasPrice_tx0: "GasPrice tx0 1000 = Inr 1501"
  by (simp add: GasPrice_Inr tx0_def)

lemma workToGas_E_ok: "workToGas E_ok w h = 1000"
  by (simp add: E_ok_def E_fail_def)

lemma ProvedWork_E_fail_tx1: "fst (ProvedWork E_fail tx1 []) = Inr 0"
  by (rule ProvedWork_unsigned [where err = ErrSigToPub])
     (simp add: Signer_def SigningHash_def lru_Get_def tx1_def empty_cache_def E_fail_def Let_def)

text \<open>
  C3. For every transaction, base gas price, head block number and block-id lookup: if the
  measured delay exceeds \<open>MaxTxWorkDelay\<close>, \<open>OverallGasPrice\<close> returns the plain \<open>GasPrice\<close>,
  whether or not the transaction is signed; otherwise it returns
  \<open>gasPrice + (workGas * baseGasPrice) / gas\<close>, where \<open>workGas\<close> is \<open>workToGas\<close> of the proved
  work capped at the declared gas and the division is that of \<open>big.Int\<close> (the quotient
  itself whenever the declared gas is not zero). For an unsigned transaction within the delay
  the price is again the plain \<open>GasPrice\<close> when \<open>workToGas\<close> maps zero work to zero gas.
\<close>

theorem OverallGasPrice_formula:
  "(measureDelay P t h g > MaxTxWorkDelay P \<longrightarrow>
      fst (OverallGasPrice E P t sc b h g) = GasPrice t b)
   \<and> (\<not> measureDelay P t h g > MaxTxWorkDelay P \<longrightarrow>
        (\<forall>work gasPrice. fst (ProvedWork E t sc) = Inr work \<and> GasPrice t b = Inr gasPrice \<longrightarrow>
           fst (OverallGasPrice E P t sc b h g) =
             (let workGas = min (workToGas E work h) (Gas (body t))
              in case big_Div (uint workGas * b) (uint (Gas (body t))) of
                   Inl err \<Rightarrow> Inl err
                 | Inr q \<Rightarrow> Inr (gasPrice + q))
           \<and> (Gas (body t) \<noteq> 0 \<longrightarrow>
                fst (OverallGasPrice E P t sc b h g) =
                  Inr (gasPrice
                       + (uint (min (workToGas E work h) (Gas (body t))) * b) div uint (Gas (body t))))))
   \<and> (\<not> measureDelay P t h g > MaxTxWorkDelay P \<and> isl (fst (Signer E t sc))
        \<and> workToGas E 0 h = 0 \<and> Gas (body t) \<noteq> 0 \<longrightarrow>
        fst (OverallGasPrice E P t sc b h g) = GasPrice t b)"
proof (intro conjI impI allI)
  assume "measureDelay P t h g > MaxTxWorkDelay P"
  then show "fst (OverallGasPrice E P t sc b h g) = GasPrice t b"
    by (simp add: OverallGasPrice_delayed)
next
  fix work gasPrice
  assume nd: "\<not> measureDelay P t h g > MaxTxWorkDelay P"
    and a: "fst (ProvedWork E t sc) = Inr work \<and> GasPrice t b = Inr gasPrice"
  then have gp: "gasPrice = (uint (GasPriceCoef (body t)) * b) div 255 + b"
    by (simp add: GasPrice_Inr)
  note w = OverallGasPrice_work [OF nd conjunct1 [OF a], of b]
  show "fst (OverallGasPrice E P t sc b h g) =
             (let workGas = min (workToGas E work h) (Gas (body t))
              in case big_Div (uint workGas * b) (uint (Gas (body t))) of
                   Inl err \<Rightarrow> Inl err
                 | Inr q \<Rightarrow> Inr (gasPrice + q))"
    unfolding w gp Let_def by (simp add: add.commute split: sum.splits)
  assume nz: "Gas (body t) \<noteq> 0"
  then have "0 < uint (Gas (body t))"
    by (simp add: word_greater_zero_iff uint_0_iff less_le)
  then show "fst (OverallGasPrice E P t sc b h g) =
                  Inr (gasPrice
                       + (uint (min (workToGas E work h) (Gas (body t))) * b) div uint (Gas (body t)))"
    unfolding w gp by (simp add: big_Div_def add.commute)
next
  assume a: "\<not> measureDelay P t h g > MaxTxWorkDelay P \<and> isl (fst (Signer E t sc))
        \<and> workToGas E 0 h = 0 \<and> Gas (body t) \<noteq> 0"
  then obtain err where "fst (Signer E t sc) = Inl err"
    by (cases "fst (Signer E t sc)") simp_all
  then have pw: "fst (ProvedWork E t sc) = Inr 0"
    by (rule ProvedWork_unsigned)
  have "0 < uint (Gas (body t))"
    using a by (simp add: uint_0_iff less_le)
  then show "fst (OverallGasPrice E P t sc b h g) = GasPrice t b"
    using a OverallGasPrice_work [OF conjunct1 [OF a] pw, of b]
    by (simp add: big_Div_def GasPrice_Inr)
qed

theorem OverallGasPrice_formula_witness:
  "measureDelay params0 tx0 0 (\<lambda>n. replicate 32 0) > MaxTxWorkDelay params0
   \<and> fst (OverallGasPrice E_ok params0 tx0 [] 1000 0 (\<lambda>n. replicate 32 0)) = Inr 1501
   \<and> \<not> measureDelay params0 tx0 5 (\<lambda>n. replicate 32 0) > MaxTxWorkDelay params0
   \<and> fst (ProvedWork E_ok tx0 []) = Inr (MaxBig256 div int (SetBytes (replicate 32 1)))
   \<and> GasPrice tx0 1000 = Inr 1501
   \<and> Gas (body tx0) \<noteq> 0
   \<and> fst (OverallGasPrice E_ok params0 tx0 [] 1000 5 (\<lambda>n. replicate 32 0)) = Inr 1548"
proof -
  have d0: "measureDelay params0 tx0 0 (\<lambda>n. replicate 32 0) > MaxTxWorkDelay params0"
    by (simp add: measureDelay_tx0_head0 MaxTxWorkDelay_params0 MaxUint32_def)
  have d5: "\<not> measureDelay params0 tx0 5 (\<lambda>n. replicate 32 0) > MaxTxWorkDelay params0"
    by (simp add: measureDelay_tx0_head5 MaxTxWorkDelay_params0)
  have g: "Gas (body tx0) \<noteq> 0"
    by (simp add: tx0_def)
  have a: "fst (OverallGasPrice E_ok params0 tx0 [] 1000 0 (\<lambda>n. replicate 32 0)) = Inr 1501"
    using OverallGasPrice_formula [of params0 tx0 0 "\<lambda>n. replicate 32 0" E_ok "[]" 1000]
          d0 GasPrice_tx0 by simp
  have "fst (OverallGasPrice E_ok params0 tx0 [] 1000 5 (\<lambda>n. replicate 32 0)) =
          Inr (1501 + (uint (min (workToGas E_ok (MaxBig256 div int (SetBytes (replicate 32 1))) 5)
                                  (Gas (body tx0))) * 1000) div uint (Gas (body tx0)))"
    using OverallGasPrice_formula [of params0 tx0 5 "\<lambda>n. replicate 32 0" E_ok "[]" 1000]
          d5 GasPrice_tx0 ProvedWork_E_ok_tx0 g by blast
  then have b: "fst (OverallGasPrice E_ok params0 tx0 [] 1000 5 (\<lambda>n. replicate 32 0)) = Inr 1548"
    by (simp add: workToGas_E_ok tx0_def)
  show ?thesis
    using d0 a d5 ProvedWork_E_ok_tx0 GasPrice_tx0 g b
    by (intro conjI) assumption+
qed

text \<open>
  C9. \<open>OverallGasPrice\<close> divides by the declared gas without a guard: for every transaction
  whose declared gas is zero and whose measured delay does not exceed \<open>MaxTxWorkDelay\<close> the
  call ends in a division by zero, every division by that gas being one; it returns a price
  when the delay exceeds \<open>MaxTxWorkDelay\<close>, and when the declared gas is not zero and the
  proved work is defined.
\<close>

theorem OverallGasPrice_zero_gas:
  "(Gas (body t) = 0 \<and> \<not> measureDelay P t h g > MaxTxWorkDelay P \<longrightarrow>
       fst (OverallGasPrice E P t sc b h g) = Inl DivisionByZero
     \<and> (\<forall>x. big_Div x (uint (Gas (body t))) = Inl DivisionByZero))
   \<and> (measureDelay P t h g > MaxTxWorkDelay P \<longrightarrow> \<not> isl (fst (OverallGasPrice E P t sc b h g)))
   \<and> (Gas (body t) \<noteq> 0 \<and> \<not> isl (fst (ProvedWork E t sc)) \<longrightarrow>
        \<not> isl (fst (OverallGasPrice E P t sc b h g)))"
proof (intro conjI impI allI)
  assume a: "Gas (body t) = 0 \<and> \<not> measureDelay P t h g > MaxTxWorkDelay P"
  show "\<And>x. big_Div x (uint (Gas (body t))) = Inl DivisionByZero"
    using a by (simp add: big_Div_def)
  show "fst (OverallGasPrice E P t sc b h g) = Inl DivisionByZero"
  proof (cases "fst (ProvedWork E t sc)")
    case (Inl e)
    then have e: "e = DivisionByZero" by (rule ProvedWork_err)
    obtain w t1 sc1 where PW: "ProvedWork E t sc = (w, t1, sc1)"
      by (cases "ProvedWork E t sc")
    then have "ProvedWork E t sc = (Inl e, t1, sc1)" using Inl by simp
    from OverallGasPrice_panic [OF conjunct2 [OF a] this] e show ?thesis by simp
  next
    case (Inr work)
    from OverallGasPrice_work [OF conjunct2 [OF a] Inr, of b] a show ?thesis
      by (simp add: big_Div_def)
  qed
next
  assume "measureDelay P t h g > MaxTxWorkDelay P"
  then show "\<not> isl (fst (OverallGasPrice E P t sc b h g))"
    by (simp add: OverallGasPrice_delayed GasPrice_Inr)
next
  assume a: "Gas (body t) \<noteq> 0 \<and> \<not> isl (fst (ProvedWork E t sc))"
  then obtain work where W: "fst (ProvedWork E t sc) = Inr work"
    by (cases "fst (ProvedWork E t sc)") simp_all
  have pos: "0 < uint (Gas (body t))"
    using a by (simp add: uint_0_iff less_le)
  show "\<not> isl (fst (OverallGasPrice E P t sc b h g))"
  proof (cases "measureDelay P t h g > MaxTxWorkDelay P")
    case True
    then show ?thesis by (simp add: OverallGasPrice_delayed GasPrice_Inr)
  next
    case False
    from OverallGasPrice_work [OF False W, of b] pos show ?thesis
      by (simp add: big_Div_def)
  qed
qed

theorem OverallGasPrice_zero_gas_witness:
  "Gas (body tx1) = 0 \<and> \<not> measureDelay params0 tx1 15 chain1 > MaxTxWorkDelay params0
   \<and> fst (OverallGasPrice E_fail params0 tx1 [] 1000 15 chain1) = Inl DivisionByZero
   \<and> measureDelay params0 tx1 41 chain1 > MaxTxWorkDelay params0
   \<and> \<not> isl (fst (OverallGasPrice E_fail params0 tx1 [] 1000 41 chain1))
   \<and> Gas (body tx0) \<noteq> 0 \<and> \<not> isl (fst (ProvedWork E_ok tx0 []))
   \<and> \<not> isl (fst (OverallGasPrice E_ok params0 tx0 [] 1000 5 (\<lambda>n. replicate 32 0)))"
proof -
  have g1: "Gas (body tx1) = 0" by (simp add: tx1_def)
  have d15: "\<not> measureDelay params0 tx1 15 chain1 > MaxTxWorkDelay params0"
    by (simp add: measureDelay_tx1 MaxTxWorkDelay_params0)
  have d41: "measureDelay params0 tx1 41 chain1 > MaxTxWorkDelay params0"
    by (simp add: measureDelay_def Let_def Number_ref1 BlockRef_tx1 params0_def MaxUint32_def)
  have g0: "Gas (body tx0) \<noteq> 0" by (simp add: tx0_def)
  have pw: "\<not> isl (fst (ProvedWork E_ok tx0 []))"
    by (simp add: ProvedWork_E_ok_tx0)
  have a: "fst (OverallGasPrice E_fail params0 tx1 [] 1000 15 chain1) = Inl DivisionByZero"
    using OverallGasPrice_zero_gas [of tx1 params0 15 chain1 E_fail "[]" 1000] g1 d15 by blast
  have b: "\<not> isl (fst (OverallGasPrice E_fail params0 tx1 [] 1000 41 chain1))"
    using OverallGasPrice_zero_gas [of tx1 params0 41 chain1 E_fail "[]" 1000] d41 by blast
  have c: "\<not> isl (fst (OverallGasPrice E_ok params0 tx0 [] 1000 5 (\<lambda>n. replicate 32 0)))"
    using OverallGasPrice_zero_gas [of tx0 params0 5 "\<lambda>n. replicate 32 0" E_ok "[]" 1000] g0 pw
    by blast
  show ?thesis
    using g1 d15 a d41 b g0 pw c by (intro conjI) assumption+
qed

section \<open>Attaching a signature\<close>

lemma signing_hash_of_Signature:
  "signing_hash_of E (b\<lparr>Signature := sig\<rparr>) = signing_hash_of E b"
  by (simp add: signing_hash_of_def)

lemma SigningHash_fresh:
  "c_signingHash (cache t) = None \<Longrightarrow> fst (SigningHash E t) = signing_hash_of E (body t)"
  by (simp add: SigningHash_def signing_hash_of_def Let_def)

lemma WithSignature_returns:
  assumes "t < length (heap w)"
  shows "WithSignature w t sig =
           Some (length (heap w),
                 w\<lparr>heap := heap w @ [\<lparr>body = (body (heap w ! t))\<lparr>Signature := sig\<rparr>,
                                       cache = empty_cache\<rparr>]\<rparr>)"
  using assms by (simp add: WithSignature_def Let_def)

lemma WithSignature_nil: "WithSignature w t sig = None \<longleftrightarrow> \<not> t < length (heap w)"
  by (simp add: WithSignature_def Let_def)

lemma WithSignature_result:
  assumes W: "WithSignature w t sig = Some (p, w')"
  shows "t < length (heap w) \<and> p = length (heap w) \<and> p \<noteq> t \<and> length (heap w') = Suc p
       \<and> body (heap w' ! p) = (body (heap w ! t))\<lparr>Signature := sig\<rparr>
       \<and> cache (heap w' ! p) = empty_cache
       \<and> (\<forall>a < length (heap w). heap w' ! a = heap w ! a)
       \<and> signerCache w' = signerCache w
       \<and> ID E (heap w' ! t) (signerCache w') = ID E (heap w ! t) (signerCache w)
       \<and> SigningHash E (heap w' ! t) = SigningHash E (heap w ! t)
       \<and> Signer E (heap w' ! t) (signerCache w') = Signer E (heap w ! t) (signerCache w)
       \<and> (cache_ok E (heap w ! t) \<longrightarrow>
            fst (SigningHash E (heap w' ! p)) = fst (SigningHash E (heap w ! t)))"
proof -
  have lt: "t < length (heap w)"
    using W by (simp add: WithSignature_def split: if_splits)
  let ?new = "\<lparr>body = (body (heap w ! t))\<lparr>Signature := sig\<rparr>, cache = empty_cache\<rparr>"
  have p: "p = length (heap w)" and w': "w' = w\<lparr>heap := heap w @ [?new]\<rparr>"
    using W lt by (auto simp: WithSignature_def Let_def)
  have new: "heap w' ! p = ?new"
    by (simp add: p w')
  have old: "\<forall>a < length (heap w). heap w' ! a = heap w ! a"
    by (simp add: w' nth_append)
  have sc: "signerCache w' = signerCache w"
    by (simp add: w')
  have same: "heap w' ! t = heap w ! t"
    using old lt by simp
  have hash: "cache_ok E (heap w ! t) \<longrightarrow>
            fst (SigningHash E (heap w' ! p)) = fst (SigningHash E (heap w ! t))"
  proof
    assume ok: "cache_ok E (heap w ! t)"
    obtain h t1 where h: "SigningHash E (heap w ! t) = (h, t1)"
      by (cases "SigningHash E (heap w ! t)")
    have "fst (SigningHash E (heap w ! t)) = signing_hash_of E (body (heap w ! t))"
      using SigningHash_ok(1) [OF ok h] h by simp
    moreover have "fst (SigningHash E ?new) = signing_hash_of E (body (heap w ! t))"
      by (simp add: SigningHash_fresh empty_cache_def signing_hash_of_Signature)
    ultimately show "fst (SigningHash E (heap w' ! p)) = fst (SigningHash E (heap w ! t))"
      by (simp add: new)
  qed
  show ?thesis
    using lt p new old sc hash by (simp add: same w')
qed

text \<open>
  C7. For every allocated transaction \<open>t\<close> and byte sequence \<open>sig\<close>, \<open>WithSignature\<close> returns
  (it fails on an unallocated receiver only): the result is a new transaction, at an address
  other than that of \<open>t\<close>, whose body is the body of \<open>t\<close> except that its signature is
  \<open>sig\<close>, and whose cache cells are unset. The call changes no allocated transaction and not
  the signer cache, so the results of \<open>ID\<close>, \<open>SigningHash\<close> and \<open>Signer\<close> on \<open>t\<close> are what
  they were; and the signing hash of the new transaction is that of \<open>t\<close>, the signature not
  being part of what is hashed.
\<close>

theorem WithSignature_frame:
  "(t < length (heap w) \<longrightarrow> (\<exists>p w'. WithSignature w t sig = Some (p, w')))
   \<and> (WithSignature w t sig = None \<longleftrightarrow> \<not> t < length (heap w))
   \<and> (\<forall>p w'. WithSignature w t sig = Some (p, w') \<longrightarrow>
          t < length (heap w) \<and> p = length (heap w) \<and> p \<noteq> t \<and> length (heap w') = Suc p
        \<and> body (heap w' ! p) = (body (heap w ! t))\<lparr>Signature := sig\<rparr>
        \<and> cache (heap w' ! p) = empty_cache
        \<and> (\<forall>a < length (heap w). heap w' ! a = heap w ! a)
        \<and> signerCache w' = signerCache w
        \<and> ID E (heap w' ! t) (signerCache w') = ID E (heap w ! t) (signerCache w)
        \<and> SigningHash E (heap w' ! t) = SigningHash E (heap w ! t)
        \<and> Signer E (heap w' ! t) (signerCache w') = Signer E (heap w ! t) (signerCache w)
        \<and> (cache_ok E (heap w ! t) \<longrightarrow>
             fst (SigningHash E (heap w' ! p)) = fst (SigningHash E (heap w ! t))))"
proof -
  have A: "t < length (heap w) \<longrightarrow> (\<exists>p w'. WithSignature w t sig = Some (p, w'))"
    by (simp add: WithSignature_returns)
  have B: "WithSignature w t sig = None \<longleftrightarrow> \<not> t < length (heap w)"
    by (rule WithSignature_nil)
  have C: "\<forall>p w'. WithSignature w t sig = Some (p, w') \<longrightarrow>
          t < length (heap w) \<and> p = length (heap w) \<and> p \<noteq> t \<and> length (heap w') = Suc p
        \<and> body (heap w' ! p) = (body (heap w ! t))\<lparr>Signature := sig\<rparr>
        \<and> cache (heap w' ! p) = empty_cache
        \<and> (\<forall>a < length (heap w). heap w' ! a = heap w ! a)
        \<and> signerCache w' = signerCache w
        \<and> ID E (heap w' ! t) (signerCache w') = ID E (heap w ! t) (signerCache w)
        \<and> SigningHash E (heap w' ! t) = SigningHash E (heap w ! t)
        \<and> Signer E (heap w' ! t) (signerCache w') = Signer E (heap w ! t) (signerCache w)
        \<and> (cache_ok E (heap w ! t) \<longrightarrow>
             fst (SigningHash E (heap w' ! p)) = fst (SigningHash E (heap w ! t)))"
    by (intro allI impI) (rule WithSignature_result)
  show ?thesis
    using A B C by (intro conjI) assumption+
qed

theorem WithSignature_frame_witness:
  "(0::nat) < length (heap world0)
   \<and> WithSignature world0 0 [1, 2, 3] = Some (1, world1)
   \<and> cache_ok E_ok (heap world0 ! 0)
   \<and> body (heap world1 ! 1) = (body (heap world0 ! 0))\<lparr>Signature := [1, 2, 3]\<rparr>
   \<and> ID E_ok (heap world1 ! 0) (signerCache world1) = ID E_ok (heap world0 ! 0) (signerCache world0)
   \<and> fst (SigningHash E_ok (heap world1 ! 1)) = fst (SigningHash E_ok (heap world0 ! 0))
   \<and> (1::nat) < length (heap world1)
   \<and> WithSignature world1 1 [9] = Some (2, world2)
   \<and> heap world2 ! 0 = heap world1 ! 0 \<and> heap world2 ! 1 = heap world1 ! 1
   \<and> body (heap world2 ! 2) = (body (heap world1 ! 1))\<lparr>Signature := [9]\<rparr>
   \<and> WithSignature world1 2 [9] = None"
proof -
  have l0: "(0::nat) < length (heap world0)" by (simp add: world0_def)
  have l1: "(1::nat) < length (heap world1)" by (simp add: world1_def)
  have l2: "\<not> (2::nat) < length (heap world1)" by (simp add: world1_def)
  have ok: "cache_ok E_ok (heap world0 ! 0)"
    by (simp add: world0_def cache_ok_tx0)
  note f0 = WithSignature_frame [of 0 world0 "[1, 2, 3]" E_ok]
  note f1 = WithSignature_frame [of 1 world1 "[9]" E_ok]
  note f2 = WithSignature_frame [of 2 world1 "[9]" E_ok]
  obtain p w' where W0: "WithSignature world0 0 [1, 2, 3] = Some (p, w')"
    using f0 l0 by blast
  have v0: "WithSignature world0 0 [1, 2, 3] = Some (1, world1)"
    by (simp add: WithSignature_def world0_def world1_def Let_def tx0_def)
  obtain q w'' where W1: "WithSignature world1 1 [9] = Some (q, w'')"
    using f1 l1 by blast
  have v1: "WithSignature world1 1 [9] = Some (2, world2)"
    by (simp add: WithSignature_def world1_def world2_def Let_def tx0_def)
  have a: "body (heap world1 ! 1) = (body (heap world0 ! 0))\<lparr>Signature := [1, 2, 3]\<rparr>"
    using f0 v0 by blast
  have b: "ID E_ok (heap world1 ! 0) (signerCache world1)
             = ID E_ok (heap world0 ! 0) (signerCache world0)"
    using f0 v0 by blast
  have c: "fst (SigningHash E_ok (heap world1 ! 1)) = fst (SigningHash E_ok (heap world0 ! 0))"
    using f0 v0 ok by blast
  have old: "\<forall>a < length (heap world1). heap world2 ! a = heap world1 ! a"
    using f1 v1 by blast
  have "(0::nat) < length (heap world1)" by (simp add: world1_def)
  then have d0: "heap world2 ! 0 = heap world1 ! 0"
    using old by blast
  have d1: "heap world2 ! 1 = heap world1 ! 1"
    using old l1 by blast
  have e: "body (heap world2 ! 2) = (body (heap world1 ! 1))\<lparr>Signature := [9]\<rparr>"
    using f1 v1 by blast
  have n: "WithSignature world1 2 [9] = None"
    using f2 l2 by blast
  show ?thesis
    using l0 v0 ok a b c l1 v1 d0 d1 e n by (intro conjI) assumption+
qed

section \<open>Intrinsic gas\<close>

lemma unat_MaxUint64: "unat MaxUint64 = 2 ^ 64 - 1"
  by (simp add: MaxUint64_def unsigned_minus_1_eq_mask mask_eq_exp_minus_1)

lemma SafeAdd_spec:
  "SafeAdd x y = (x + y, unat x + unat y \<ge> 2 ^ 64)"
proof -
  have "unat (MaxUint64 - x) = unat MaxUint64 - unat x"
    by (rule unat_sub) (simp add: MaxUint64_def)
  then have "unat (MaxUint64 - x) = 2 ^ 64 - 1 - unat x"
    by (simp add: unat_MaxUint64)
  moreover have "unat x < 2 ^ 64" "unat y < 2 ^ 64"
    using unsigned_less [of x, where 'a = nat] unsigned_less [of y, where 'a = nat] by simp_all
  ultimately have "(y > MaxUint64 - x) = (unat x + unat y \<ge> 2 ^ 64)"
    by (simp add: word_less_nat_alt) arith
  then show ?thesis by (simp add: SafeAdd_def)
qed

lemma pred_less_gen: "0 < (k::nat) \<Longrightarrow> (k - 1 < n) = (k \<le> n)"
  by arith

lemma pred_less_iff: "((2::nat) ^ 64 - 1 < n) = (2 ^ 64 \<le> n)"
  by (rule pred_less_gen) simp

lemma div_less_iff: "0 < (a::nat) \<Longrightarrow> (M div a < b) = (M < a * b)"
  by (simp add: div_less_iff_less_mult mult.commute)

lemma SafeMul_spec:
  "SafeMul x y = (x * y, unat x * unat y \<ge> 2 ^ 64)"
proof (cases "x = 0 \<or> y = 0")
  case True
  then show ?thesis by (auto simp: SafeMul_def)
next
  case False
  then have pos: "0 < unat x"
    by (simp add: unat_gt_0)
  have "unat (MaxUint64 div x) = (2 ^ 64 - 1) div unat x"
    by (simp add: unat_div unat_MaxUint64)
  then have "(y > MaxUint64 div x) = ((2 ^ 64 - 1) div unat x < unat y)"
    by (simp add: word_less_nat_alt)
  also have "\<dots> = (2 ^ 64 - 1 < unat x * unat y)"
    by (rule div_less_iff [OF pos])
  also have "\<dots> = (unat x * unat y \<ge> 2 ^ 64)"
    by (rule pred_less_iff)
  finally show ?thesis using False by (simp add: SafeMul_def)
qed

lemma unat_add_exact: "unat (x :: uint64) + unat y < 2 ^ 64 \<Longrightarrow> unat (x + y) = unat x + unat y"
  by (simp add: unat_add_lem [THEN iffD1])

lemma unat_mult_exact: "unat (x :: uint64) * unat y < 2 ^ 64 \<Longrightarrow> unat (x * y) = unat x * unat y"
  by (simp add: unat_mult_lem [THEN iffD1])

lemma count_bytes_eq:
  "count_bytes data (z, nz) = (z + of_nat (zeros data), nz + of_nat (nonzeros data))"
  by (induction data arbitrary: z nz) (simp_all add: zeros_def nonzeros_def)

lemma zeros_le: "zeros data \<le> length data"
  by (simp add: zeros_def)

lemma nonzeros_le: "nonzeros data \<le> length data"
  by (simp add: nonzeros_def)

lemma unat_of_nat64: "n < 2 ^ 64 \<Longrightarrow> unat (of_nat n :: uint64) = n"
  by (simp add: unat_of_nat)

lemma gas_value_Inl: "gas_value r = Inl e \<longleftrightarrow> r = Inl e"
  by (cases r) (simp_all add: gas_value_def)

lemma gas_value_Inr: "gas_value r = Inr n \<longleftrightarrow> (\<exists>g. r = Inr g \<and> unat g = n)"
  by (cases r) (simp_all add: gas_value_def)

lemma checked_ge: "2 ^ 64 \<le> n \<Longrightarrow> checked n = Inl ErrOutOfGas"
  by (simp add: checked_def)

lemma checked_lt: "n < 2 ^ 64 \<Longrightarrow> checked n = Inr n"
  by (simp add: checked_def)

lemma dataGas_exact:
  assumes len: "length data < 2 ^ 64"
  shows "gas_value (dataGas P data) = checked (data_cost P data)"
proof (cases "data = []")
  case True
  then show ?thesis
    by (simp add: dataGas_def gas_value_def checked_def data_cost_def zeros_def nonzeros_def)
next
  case False
  let ?Z = "TxDataZeroGas P" and ?NZ = "TxDataNonZeroGas P"
  let ?z = "of_nat (zeros data) :: uint64" and ?nz = "of_nat (nonzeros data) :: uint64"
  define a where "a = unat ?Z * zeros data"
  define b where "b = unat ?NZ * nonzeros data"
  have uz: "unat ?z = zeros data"
    using zeros_le [of data] len by (simp add: unat_of_nat64)
  have unz: "unat ?nz = nonzeros data"
    using nonzeros_le [of data] len by (simp add: unat_of_nat64)
  have cost: "data_cost P data = a + b"
    by (simp add: data_cost_def a_def b_def mult.commute)
  have unfold: "dataGas P data =
      (if 2 ^ 64 \<le> a then Inl ErrOutOfGas
       else if 2 ^ 64 \<le> b then Inl ErrOutOfGas
       else if 2 ^ 64 \<le> unat (?Z * ?z) + unat (?NZ * ?nz) then Inl ErrOutOfGas
       else Inr (?Z * ?z + ?NZ * ?nz))"
    using False
    by (simp add: dataGas_def count_bytes_eq SafeMul_spec SafeAdd_spec Let_def a_def b_def uz unz)
  show ?thesis
  proof (cases "2 ^ 64 \<le> a \<or> 2 ^ 64 \<le> b")
    case True
    then have "2 ^ 64 \<le> a + b" by arith
    then show ?thesis
      using True unfold by (auto simp: cost checked_ge gas_value_def)
  next
    case small: False
    then have la: "a < 2 ^ 64" and lb: "b < 2 ^ 64" by simp_all
    have ua: "unat (?Z * ?z) = a"
      using la by (simp add: unat_mult_exact uz a_def)
    have ub: "unat (?NZ * ?nz) = b"
      using lb by (simp add: unat_mult_exact unz b_def)
    show ?thesis
    proof (cases "2 ^ 64 \<le> a + b")
      case True
      then show ?thesis
        using small unfold by (simp add: ua ub cost checked_ge gas_value_def)
    next
      case False
      then have "unat (?Z * ?z + ?NZ * ?nz) = a + b"
        by (simp add: unat_add_exact ua ub)
      then show ?thesis
        using False small unfold by (simp add: ua ub cost checked_lt gas_value_def)
    qed
  qed
qed

lemma clauses_gas_step:
  "clauses_gas P tot (c # cs) =
     (case dataGas P (Data c) of
        Inl err \<Rightarrow> Inl err
      | Inr gas \<Rightarrow>
          if 2 ^ 64 \<le> unat tot + unat gas then Inl ErrOutOfGas
          else if 2 ^ 64 \<le> unat (tot + gas)
                    + unat (if To c = None then ClauseGasContractCreation P else ClauseGas P)
          then Inl ErrOutOfGas
          else clauses_gas P
                 (tot + gas + (if To c = None then ClauseGasContractCreation P else ClauseGas P)) cs)"
  by (simp add: SafeAdd_spec Let_def split: sum.splits)

lemma clauses_gas_exact:
  assumes "\<forall>c \<in> set cs. length (Data c) < 2 ^ 64"
  shows "gas_value (clauses_gas P tot cs) = checked (unat tot + clauses_cost P cs)"
  using assms
proof (induction cs arbitrary: tot)
  case Nil
  have "unat tot < 2 ^ 64"
    using unsigned_less [of tot, where 'a = nat] by simp
  then show ?case
    by (simp add: clauses_cost_def gas_value_def checked_def)
next
  case (Cons c cs)
  let ?cg = "if To c = None then ClauseGasContractCreation P else ClauseGas P"
  let ?dc = "data_cost P (Data c)"
  let ?rest = "clauses_cost P cs"
  have len: "length (Data c) < 2 ^ 64" and rest: "\<forall>c \<in> set cs. length (Data c) < 2 ^ 64"
    using Cons.prems by simp_all
  have total: "clauses_cost P (c # cs) = ?dc + unat ?cg + ?rest"
    by (simp add: clauses_cost_def clause_cost_def)
  note dg = dataGas_exact [OF len, of P]
  show ?case
  proof (cases "2 ^ 64 \<le> ?dc")
    case True
    then have "dataGas P (Data c) = Inl ErrOutOfGas"
      using dg by (simp add: checked_ge gas_value_Inl)
    moreover have "2 ^ 64 \<le> unat tot + (?dc + unat ?cg + ?rest)"
      using True by arith
    ultimately show ?thesis
      unfolding clauses_gas_step total by (simp add: checked_ge gas_value_def)
  next
    case False
    then have "gas_value (dataGas P (Data c)) = Inr ?dc"
      using dg by (simp add: checked_lt)
    then obtain gas where g: "dataGas P (Data c) = Inr gas" and ug: "unat gas = ?dc"
      by (auto simp: gas_value_Inr)
    show ?thesis
    proof (cases "2 ^ 64 \<le> unat tot + ?dc")
      case True
      then have "2 ^ 64 \<le> unat tot + (?dc + unat ?cg + ?rest)" by arith
      then show ?thesis
        unfolding clauses_gas_step total using True
        by (simp add: g ug checked_ge gas_value_def)
    next
      case a: False
      then have u1: "unat (tot + gas) = unat tot + ?dc"
        by (simp add: unat_add_exact ug)
      show ?thesis
      proof (cases "2 ^ 64 \<le> unat tot + ?dc + unat ?cg")
        case True
        then have "2 ^ 64 \<le> unat tot + (?dc + unat ?cg + ?rest)" by arith
        then show ?thesis
          unfolding clauses_gas_step total using True a
          by (simp add: g ug u1 checked_ge gas_value_def)
      next
        case b: False
        then have u2: "unat (tot + gas + ?cg) = unat tot + ?dc + unat ?cg"
          using u1 by (simp add: unat_add_exact)
        have "clauses_gas P tot (c # cs) = clauses_gas P (tot + gas + ?cg) cs"
          unfolding clauses_gas_step using a b by (simp add: g ug u1)
        then have "gas_value (clauses_gas P tot (c # cs))
                     = checked (unat (tot + gas + ?cg) + ?rest)"
          using Cons.IH [OF rest, of "tot + gas + ?cg"] by simp
        then show ?thesis
          unfolding total u2 by (simp add: add.assoc)
      qed
    qed
  qed
qed

text \<open>
  C2. \<open>IntrinsicGas\<close> of a transaction without clauses is \<open>TxGas + ClauseGas\<close> (the sum of two
  constants, exact whenever the constants' sum fits 64 bits, as a constant expression of
  type \<open>uint64\<close> must). For a transaction with one contract-creation clause whose data has
  \<open>n\<close> zero and \<open>m\<close> non-zero bytes it is
  \<open>TxGas + n * TxDataZeroGas + m * TxDataNonZeroGas + ClauseGasContractCreation\<close>, and for any
  non-empty list of clauses the sum of \<open>TxGas\<close> and the clauses' costs, when that number
  fits 64 bits; when it does not, and so whenever a sum or product on the way overflows, the
  result is \<open>ErrOutOfGas\<close>, never a wrapped value. A slice has fewer than \<open>2 ^ 64\<close> elements.
\<close>

theorem IntrinsicGas_exact:
  "(Clauses (body t) = [] \<longrightarrow>
       IntrinsicGas P t = Inr (TxGas P + ClauseGas P)
     \<and> (unat (TxGas P) + unat (ClauseGas P) < 2 ^ 64 \<longrightarrow>
          gas_value (IntrinsicGas P t) = Inr (unat (TxGas P) + unat (ClauseGas P))))
   \<and> (\<forall>c. Clauses (body t) = [c] \<and> To c = None \<and> length (Data c) < 2 ^ 64 \<longrightarrow>
          gas_value (IntrinsicGas P t) =
            checked (unat (TxGas P) + zeros (Data c) * unat (TxDataZeroGas P)
                       + nonzeros (Data c) * unat (TxDataNonZeroGas P)
                       + unat (ClauseGasContractCreation P)))
   \<and> (Clauses (body t) \<noteq> [] \<and> (\<forall>c \<in> set (Clauses (body t)). length (Data c) < 2 ^ 64) \<longrightarrow>
          gas_value (IntrinsicGas P t) = checked (unat (TxGas P) + clauses_cost P (Clauses (body t))))"
proof -
  have A: "Clauses (body t) = [] \<longrightarrow>
       IntrinsicGas P t = Inr (TxGas P + ClauseGas P)
     \<and> (unat (TxGas P) + unat (ClauseGas P) < 2 ^ 64 \<longrightarrow>
          gas_value (IntrinsicGas P t) = Inr (unat (TxGas P) + unat (ClauseGas P)))"
    by (simp add: IntrinsicGas_def gas_value_def unat_add_exact)
  have C: "Clauses (body t) \<noteq> [] \<and> (\<forall>c \<in> set (Clauses (body t)). length (Data c) < 2 ^ 64) \<longrightarrow>
          gas_value (IntrinsicGas P t) = checked (unat (TxGas P) + clauses_cost P (Clauses (body t)))"
    by (simp add: IntrinsicGas_def clauses_gas_exact)
  have B: "\<forall>c. Clauses (body t) = [c] \<and> To c = None \<and> length (Data c) < 2 ^ 64 \<longrightarrow>
          gas_value (IntrinsicGas P t) =
            checked (unat (TxGas P) + zeros (Data c) * unat (TxDataZeroGas P)
                       + nonzeros (Data c) * unat (TxDataNonZeroGas P)
                       + unat (ClauseGasContractCreation P))"
  proof (intro allI impI)
    fix c
    assume a: "Clauses (body t) = [c] \<and> To c = None \<and> length (Data c) < 2 ^ 64"
    then have "gas_value (IntrinsicGas P t) = checked (unat (TxGas P) + clauses_cost P [c])"
      using C by simp
    then show "gas_value (IntrinsicGas P t) =
            checked (unat (TxGas P) + zeros (Data c) * unat (TxDataZeroGas P)
                       + nonzeros (Data c) * unat (TxDataNonZeroGas P)
                       + unat (ClauseGasContractCreation P))"
      using a by (simp add: clauses_cost_def clause_cost_def data_cost_def add.assoc)
  qed
  show ?thesis
    using A B C by (intro conjI) assumption+
qed

theorem IntrinsicGas_exact_witness:
  "Clauses (body tx0) = [] \<and> IntrinsicGas params0 tx0 = Inr 21000
   \<and> Clauses (body tx2) = [\<lparr>To = None, Value = 0, Data = [0, 1, 2]\<rparr>]
   \<and> length [0, 1, 2 :: byte] < 2 ^ 64
   \<and> gas_value (IntrinsicGas params0 tx2) = Inr 53140
   \<and> IntrinsicGas params_big tx2 = Inl ErrOutOfGas"
proof -
  let ?c = "\<lparr>To = None, Value = 0, Data = [0, 1, 2 :: byte]\<rparr>"
  have e: "Clauses (body tx0) = []" by (simp add: tx0_def)
  have c: "Clauses (body tx2) = [?c]" by (simp add: tx2_def)
  have l: "length [0, 1, 2 :: byte] < 2 ^ 64" by simp
  have hyp: "Clauses (body tx2) = [?c] \<and> To ?c = None \<and> length (Data ?c) < 2 ^ 64"
    using c by simp
  have a: "IntrinsicGas params0 tx0 = Inr 21000"
    using IntrinsicGas_exact [of tx0 params0] e by (simp add: params0_def)
  have "gas_value (IntrinsicGas params0 tx2) =
            checked (unat (TxGas params0) + zeros (Data ?c) * unat (TxDataZeroGas params0)
                       + nonzeros (Data ?c) * unat (TxDataNonZeroGas params0)
                       + unat (ClauseGasContractCreation params0))"
    using IntrinsicGas_exact [of tx2 params0] hyp by blast
  then have b: "gas_value (IntrinsicGas params0 tx2) = Inr 53140"
    by (simp add: params0_def zeros_def nonzeros_def checked_def)
  have "gas_value (IntrinsicGas params_big tx2) =
            checked (unat (TxGas params_big) + zeros (Data ?c) * unat (TxDataZeroGas params_big)
                       + nonzeros (Data ?c) * unat (TxDataNonZeroGas params_big)
                       + unat (ClauseGasContractCreation params_big))"
    using IntrinsicGas_exact [of tx2 params_big] hyp by blast
  then have "gas_value (IntrinsicGas params_big tx2) = Inl ErrOutOfGas"
    by (simp add: params_big_def params0_def zeros_def nonzeros_def checked_def)
  then have d: "IntrinsicGas params_big tx2 = Inl ErrOutOfGas"
    by (simp add: gas_value_Inl)
  show ?thesis
    using e a c l b d by (intro conjI) assumption+
qed

section \<open>Round trip of the canonical encoding\<close>

declare be_bytes.simps [simp del]

lemma be_bytes_0: "be_bytes 0 = []"
  by (subst be_bytes.simps) simp

lemma be_bytes_unfold: "n \<noteq> 0 \<Longrightarrow> be_bytes n = be_bytes (n div 256) @ [of_nat (n mod 256)]"
  by (subst be_bytes.simps) simp

lemma unat_of_nat_byte: "m < 256 \<Longrightarrow> unat (of_nat m :: byte) = m"
  by (simp add: unat_of_nat)

lemma SetBytes_be_bytes: "SetBytes (be_bytes n) = n"
proof (induction n rule: be_bytes.induct)
  case (1 n)
  show ?case
  proof (cases "n = 0")
    case True
    then show ?thesis by (simp add: SetBytes_def be_bytes_0)
  next
    case False
    then have "be_bytes n = be_bytes (n div 256) @ [of_nat (n mod 256)]"
      by (rule be_bytes_unfold)
    then show ?thesis
      using 1 False by (simp add: SetBytes_snoc unat_of_nat_byte)
  qed
qed

lemma be_bytes_pos:
  "n \<noteq> 0 \<Longrightarrow> be_bytes n \<noteq> [] \<and> hd (be_bytes n) \<noteq> 0"
proof (induction n rule: be_bytes.induct)
  case (1 n)
  then have nz: "n \<noteq> 0" by simp
  have unfold: "be_bytes n = be_bytes (n div 256) @ [of_nat (n mod 256)]"
    using nz by (rule be_bytes_unfold)
  show ?case
  proof (cases "n div 256 = 0")
    case True
    then have small: "n < 256" by (simp add: div_eq_0_iff)
    then have "unat (of_nat n :: byte) = n" by (rule unat_of_nat_byte)
    then have "(of_nat n :: byte) \<noteq> 0" using nz by (metis unat_0)
    then show ?thesis
      using True small unfold by (simp add: be_bytes_0)
  next
    case False
    then have "be_bytes (n div 256) \<noteq> [] \<and> hd (be_bytes (n div 256)) \<noteq> 0"
      using 1 nz by simp
    then show ?thesis
      unfolding unfold by simp
  qed
qed

lemma length_be_bytes: "n < 256 ^ k \<Longrightarrow> length (be_bytes n) \<le> k"
proof (induction k arbitrary: n)
  case 0
  then show ?case by (simp add: be_bytes_0)
next
  case (Suc k)
  show ?case
  proof (cases "n = 0")
    case True
    then show ?thesis by (simp add: be_bytes_0)
  next
    case False
    then have unfold: "be_bytes n = be_bytes (n div 256) @ [of_nat (n mod 256)]"
      by (rule be_bytes_unfold)
    have "n div 256 < 256 ^ k"
      using Suc.prems by (simp add: less_mult_imp_div_less mult.commute)
    then have "length (be_bytes (n div 256)) \<le> k" by (rule Suc.IH)
    then show ?thesis unfolding unfold by simp
  qed
qed

lemma length_be_bytes64: "n < 2 ^ 64 \<Longrightarrow> length (be_bytes n) \<le> 8"
proof -
  assume "n < 2 ^ 64"
  moreover have "(2::nat) ^ 64 = 256 ^ 8" by simp
  ultimately have "n < 256 ^ 8" by simp
  then show ?thesis by (rule length_be_bytes)
qed

lemma readUint_be_bytes:
  "n \<noteq> 0 \<Longrightarrow> readUint (length (be_bytes n)) (be_bytes n @ rest) = Some (n, rest)"
  using be_bytes_pos [of n] by (simp add: readUint_def SetBytes_be_bytes)

lemma length_be_bytes_pos: "n \<noteq> 0 \<Longrightarrow> 1 \<le> length (be_bytes n)"
  using be_bytes_pos [of n] by (cases "be_bytes n") simp_all

lemma byte_less: "m < 256 \<Longrightarrow> ((of_nat m :: byte) < of_nat k) = (m < k mod 256)"
  by (simp add: word_less_nat_alt unat_of_nat)

lemma readKind_string_byte:
  assumes "unat b = 128 + n" and "n < 56"
  shows "readKind (b # rest) = Some (KString n, rest)"
proof -
  have "\<not> b < 0x80" "b < 0xB8"
    using assms by (simp_all add: word_less_nat_alt)
  then show ?thesis
    by (simp add: readKind_def assms(1))
qed

lemma readKind_list_byte:
  assumes "unat b = 192 + n" and "n < 56"
  shows "readKind (b # rest) = Some (KList n, rest)"
proof -
  have "\<not> b < 0x80" "\<not> b < 0xB8" "\<not> b < 0xC0" "b < 0xF8"
    using assms by (simp_all add: word_less_nat_alt)
  then show ?thesis
    by (simp add: readKind_def assms(1))
qed

lemma readKind_long_string_byte:
  assumes "unat b = 183 + l" and "1 \<le> l" and "l \<le> 8"
    and "readUint l bs = Some (n, rest)" and "56 \<le> n"
  shows "readKind (b # bs) = Some (KString n, rest)"
proof -
  have "\<not> b < 0x80" "\<not> b < 0xB8" "b < 0xC0"
    using assms(1-3) by (simp_all add: word_less_nat_alt)
  then show ?thesis
    using assms(4,5) by (simp add: readKind_def assms(1))
qed

lemma readKind_long_list_byte:
  assumes "unat b = 247 + l" and "1 \<le> l" and "l \<le> 8"
    and "readUint l bs = Some (n, rest)" and "56 \<le> n"
  shows "readKind (b # bs) = Some (KList n, rest)"
proof -
  have "\<not> b < 0x80" "\<not> b < 0xB8" "\<not> b < 0xC0" "\<not> b < 0xF8"
    using assms(1-3) by (simp_all add: word_less_nat_alt)
  then show ?thesis
    using assms(4,5) by (simp add: readKind_def assms(1))
qed

lemma readKind_head:
  assumes "n < 2 ^ 64" and "base = 128 \<or> base = 192"
  shows "readKind (rlp_head base n @ rest)
           = Some (if base = 128 then KString n else KList n, rest)"
proof (cases "n < 56")
  case True
  have u: "unat (of_nat (base + n) :: byte) = base + n"
    by (rule unat_of_nat_byte) (use True assms(2) in auto)
  show ?thesis
    using assms(2) True u
    by (auto simp: rlp_head_def intro: readKind_string_byte readKind_list_byte
             simp del: of_nat_add)
next
  case False
  let ?l = "length (be_bytes n)"
  have nz: "n \<noteq> 0" using False by simp
  have l: "1 \<le> ?l" "?l \<le> 8"
    using length_be_bytes_pos [OF nz] length_be_bytes64 [OF assms(1)] by simp_all
  have u: "unat (of_nat (base + 55 + ?l) :: byte) = base + 55 + ?l"
    by (rule unat_of_nat_byte) (use l assms(2) in auto)
  have ge: "56 \<le> n" using False by simp
  note r = readUint_be_bytes [OF nz, of rest]
  show ?thesis
  proof (cases "base = 128")
    case True
    then have "unat (of_nat (base + 55 + ?l) :: byte) = 183 + ?l" using u by simp
    from readKind_long_string_byte [OF this l r ge] True False show ?thesis
      by (simp add: rlp_head_def del: of_nat_add)
  next
    case b: False
    then have "base = 192" using assms(2) by simp
    then have "unat (of_nat (base + 55 + ?l) :: byte) = 247 + ?l" using u by simp
    from readKind_long_list_byte [OF this l r ge] b False show ?thesis
      by (simp add: rlp_head_def del: of_nat_add)
  qed
qed

lemma readKind_head_string:
  "n < 2 ^ 64 \<Longrightarrow> readKind (rlp_head 0x80 n @ rest) = Some (KString n, rest)"
  using readKind_head [of n 128 rest] by simp

lemma readKind_head_list:
  "n < 2 ^ 64 \<Longrightarrow> readKind (rlp_head 0xC0 n @ rest) = Some (KList n, rest)"
  using readKind_head [of n 192 rest] by simp

lemma rlp_head_nonempty: "rlp_head base n \<noteq> []"
  by (simp add: rlp_head_def)

lemma rlp_encode_nonempty: "rlp_encode x \<noteq> []"
  by (cases x) (auto simp: rlp_head_nonempty Let_def)

lemma readKind_single: "b < 0x80 \<Longrightarrow> readKind (b # rest) = Some (KByte b, rest)"
  by (simp add: readKind_def)

lemma decode_string:
  assumes "length bs < 2 ^ 64"
  shows "rlp_decode (rlp_encode (String bs) @ rest) = Some (String bs, rest)"
proof (cases "length bs = 1 \<and> hd bs < 0x80")
  case True
  then obtain b where b: "bs = [b]" and lt: "b < 0x80"
    by (cases bs) auto
  show ?thesis
    by (subst rlp_decode.simps) (simp add: b lt readKind_single)
next
  case False
  have k: "readKind (rlp_head 0x80 (length bs) @ bs @ rest) = Some (KString (length bs), bs @ rest)"
    by (rule readKind_head_string [OF assms])
  have c: "\<not> (length bs = 1 \<and> hd (bs @ rest) < 0x80)"
    using False by (cases bs) auto
  have e: "rlp_encode (String bs) = rlp_head 0x80 (length bs) @ bs"
    using False by auto
  have n1: "\<not> (length bs = 1 \<and> hd (bs @ rest) < 128)"
    using c by simp
  show ?thesis
    unfolding e by (subst rlp_decode.simps) (use n1 in \<open>simp add: k\<close>)
qed

lemma decode_list_items:
  assumes "\<And>x rest. x \<in> set xs \<Longrightarrow> rlp_decode (rlp_encode x @ rest) = Some (x, rest)"
  shows "rlp_decode_list (concat (map rlp_encode xs)) = Some xs"
  using assms
proof (induction xs)
  case Nil
  show ?case by (subst rlp_decode_list.simps) simp
next
  case (Cons x xs)
  let ?rest = "concat (map rlp_encode xs)"
  have d: "rlp_decode (rlp_encode x @ ?rest) = Some (x, ?rest)"
    by (rule Cons.prems) simp
  have r: "rlp_decode_list ?rest = Some xs"
    by (rule Cons.IH) (simp add: Cons.prems)
  have ne: "rlp_encode x @ ?rest \<noteq> []"
    by (simp add: rlp_encode_nonempty)
  have sh: "length ?rest < length (rlp_encode x @ ?rest)"
    using rlp_encode_nonempty [of x] by (cases "rlp_encode x") simp_all
  show ?case
    using ne sh by (subst rlp_decode_list.simps) (simp add: d r)
qed

lemma decode_list:
  assumes items: "rlp_decode_list (concat (map rlp_encode xs)) = Some xs"
    and len: "length (concat (map rlp_encode xs)) < 2 ^ 64"
  shows "rlp_decode (rlp_encode (List xs) @ rest) = Some (List xs, rest)"
proof -
  let ?p = "concat (map rlp_encode xs)"
  have k: "readKind (rlp_head 0xC0 (length ?p) @ ?p @ rest) = Some (KList (length ?p), ?p @ rest)"
    by (rule readKind_head_list [OF len])
  show ?thesis
    by (subst rlp_decode.simps) (simp add: Let_def k items)
qed

lemma rlp_decode_encode:
  "valid_item x \<Longrightarrow> rlp_decode (rlp_encode x @ rest) = Some (x, rest)"
proof (induction x arbitrary: rest)
  case (String bs)
  then show ?case by (simp only: valid_item.simps decode_string)
next
  case (List xs)
  have v: "list_all valid_item xs" and len: "length (concat (map rlp_encode xs)) < 2 ^ 64"
    using List.prems by simp_all
  have "rlp_decode_list (concat (map rlp_encode xs)) = Some xs"
  proof (rule decode_list_items)
    fix x rest
    assume x: "x \<in> set xs"
    then have "valid_item x" using v by (simp add: list_all_iff)
    then show "rlp_decode (rlp_encode x @ rest) = Some (x, rest)"
      using List.IH [OF x] by simp
  qed
  then show ?case
    using len by (rule decode_list)
qed

lemma dec_uint_rlp_uint:
  assumes "n < 256 ^ k"
  shows "dec_uint k (rlp_uint n) = Some n"
proof (cases "n = 0")
  case True
  then show ?thesis by (simp add: dec_uint_def rlp_uint_def be_bytes_0 SetBytes_def)
next
  case False
  then show ?thesis
    using be_bytes_pos [OF False] length_be_bytes [OF assms]
    by (simp add: dec_uint_def rlp_uint_def SetBytes_be_bytes)
qed

lemma dec_uint_byte: "dec_uint 1 (rlp_uint (unat (w :: byte))) = Some (unat w)"
proof -
  have "unat w < 2 ^ 8" using unsigned_less [of w, where 'a = nat] by simp
  then have "unat w < 256 ^ 1" by simp
  then show ?thesis by (rule dec_uint_rlp_uint)
qed

lemma dec_uint_uint64: "dec_uint 8 (rlp_uint (unat (w :: uint64))) = Some (unat w)"
proof -
  have "unat w < 2 ^ 64" using unsigned_less [of w, where 'a = nat] by simp
  moreover have "(2::nat) ^ 64 = 256 ^ 8" by simp
  ultimately have "unat w < 256 ^ 8" by simp
  then show ?thesis by (rule dec_uint_rlp_uint)
qed

lemma dec_bigint_rlp_uint: "dec_bigint (rlp_uint v) = Some v"
proof (cases "v = 0")
  case True
  then show ?thesis by (simp add: dec_bigint_def rlp_uint_def be_bytes_0 SetBytes_def)
next
  case False
  then show ?thesis
    using be_bytes_pos [OF False] by (simp add: dec_bigint_def rlp_uint_def SetBytes_be_bytes)
qed

lemma dec_ptr_rlp_ptr: "valid_ptr n p \<Longrightarrow> 0 < n \<Longrightarrow> dec_ptr n (rlp_ptr p) = Some p"
  by (cases p) (auto simp: dec_ptr_def rlp_ptr_def valid_ptr_def)

lemma dec_clause_rlp_clause:
  "valid_ptr 20 (To c) \<Longrightarrow> dec_clause (rlp_clause c) = Some c"
  by (simp add: dec_clause_def rlp_clause_def dec_ptr_rlp_ptr dec_bigint_rlp_uint dec_bytes_def)

lemma dec_clauses_map:
  "list_all (\<lambda>c. valid_ptr 20 (To c)) cs \<Longrightarrow> those (map dec_clause (map rlp_clause cs)) = Some cs"
  by (induction cs) (simp_all add: dec_clause_rlp_clause)

lemma dec_body_rlp_body:
  assumes "list_all (\<lambda>c. valid_ptr 20 (To c)) (Clauses b)" and "valid_ptr 32 (DependsOn b)"
  shows "dec_body (rlp_body b) = Some b"
proof -
  have "b = \<lparr>ChainTag = ChainTag b, Nonce = Nonce b, BlockRef = BlockRef b,
             Clauses = Clauses b, GasPriceCoef = GasPriceCoef b, Gas = Gas b,
             DependsOn = DependsOn b, Reserved = Reserved b, Signature = Signature b\<rparr>"
    by simp
  then show ?thesis
    using assms
    by (simp add: dec_body_def rlp_body_def dec_uint_byte dec_uint_uint64 dec_clauses_def
          dec_clauses_map dec_ptr_rlp_ptr dec_reserved_def dec_bytes_def
          del: map_map One_nat_def)
qed

lemma valid_body_tx3: "valid_body (body tx3)"
  by (simp add: valid_body_def valid_ptr_def tx3_def rlp_body_def rlp_clause_def rlp_uint_def
        rlp_ptr_def rlp_head_def be_bytes.simps Let_def)

text \<open>
  C6. For every valid transaction body \<open>b\<close>, decoding the canonical encoding of \<open>b\<close>, whatever
  follows it in the stream, succeeds and yields a transaction whose body equals \<open>b\<close>: every
  field is as it was, the reserved entries and a nil \<open>DependsOn\<close> among them.
\<close>

theorem DecodeRLP_EncodeRLP:
  assumes "valid_body b"
  shows "DecodeRLP (EncodeRLP \<lparr>body = b, cache = c\<rparr> @ rest)
           = Some (\<lparr>body = b, cache = empty_cache\<rparr>, rest)"
proof -
  have v: "valid_item (rlp_body b)"
    and cl: "list_all (\<lambda>c. valid_ptr 20 (To c)) (Clauses b)"
    and dp: "valid_ptr 32 (DependsOn b)"
    using assms by (simp_all add: valid_body_def)
  have "rlp_decode (rlp_encode (rlp_body b) @ rest) = Some (rlp_body b, rest)"
    using v by (rule rlp_decode_encode)
  then show ?thesis
    by (simp add: DecodeRLP_def EncodeRLP_def dec_body_rlp_body [OF cl dp])
qed

theorem DecodeRLP_EncodeRLP_witness:
  "valid_body (body tx3)
   \<and> DecodeRLP (EncodeRLP tx3 @ [1, 2, 3]) = Some (tx3, [1, 2, 3])
   \<and> DependsOn (body tx3) = None
   \<and> Reserved (body tx3) = [String [1, 2], List [String []]]"
proof -
  have t: "tx3 = \<lparr>body = body tx3, cache = empty_cache\<rparr>"
    by (simp add: tx3_def)
  have "DecodeRLP (EncodeRLP \<lparr>body = body tx3, cache = empty_cache\<rparr> @ [1, 2, 3])
          = Some (\<lparr>body = body tx3, cache = empty_cache\<rparr>, [1, 2, 3])"
    using DecodeRLP_EncodeRLP [OF valid_body_tx3] .
  then have a: "DecodeRLP (EncodeRLP tx3 @ [1, 2, 3]) = Some (tx3, [1, 2, 3])"
    using t by simp
  have b: "DependsOn (body tx3) = None" by (simp add: tx3_def)
  have c: "Reserved (body tx3) = [String [1, 2], List [String []]]" by (simp add: tx3_def)
  show ?thesis
    using valid_body_tx3 a b c by (intro conjI) assumption+
qed

end
